theory Spec2Isabelle
  imports Main "HOL-Library.Sublist" "HOL-Library.Code_Target_Nat"
begin

section \<open>JavaScript strings\<close>

text \<open>
  A JavaScript string is a sequence of UTF-16 code units. \<open>decodeURI\<close> produces code
  units above 255, so a code unit is a natural number (below 65536 in every string the
  program can hold) and not an 8-bit \<open>char\<close>. \<open>js\<close> turns an ASCII literal into the
  code units of the same JavaScript literal.
\<close>

type_synonym jsstring = "nat list"

definition js :: "string \<Rightarrow> jsstring" where
  "js s = map of_char s"

text \<open>\<open>s.includes(t)\<close>: \<open>t\<close> occurs in \<open>s\<close> as a contiguous run of code units.\<close>

fun str_includes :: "jsstring \<Rightarrow> jsstring \<Rightarrow> bool" where
  "str_includes [] t = (t = [])"
| "str_includes (c # cs) t = (prefix t (c # cs) \<or> str_includes cs t)"

text \<open>
  \<open>s.split(sep)\<close> for a string separator: the pieces between the occurrences of
  \<open>sep\<close>, found from the left and not overlapping; a string without the separator is
  one piece (also the empty string). With the empty separator JavaScript returns the
  code units one by one. \<open>split_from sep acc s\<close> carries the piece read so far,
  reversed.
\<close>

function split_from :: "jsstring \<Rightarrow> jsstring \<Rightarrow> jsstring \<Rightarrow> jsstring list" where
  "split_from sep acc [] = [rev acc]"
| "split_from sep acc (c # cs) =
     (if sep \<noteq> [] \<and> prefix sep (c # cs)
      then rev acc # split_from sep [] (drop (length sep) (c # cs))
      else split_from sep (c # acc) cs)"
  by pat_completeness auto
termination
  by (relation "measure (\<lambda>(sep, acc, s). length s)") auto

definition str_split :: "jsstring \<Rightarrow> jsstring \<Rightarrow> jsstring list" where
  "str_split s sep = (if sep = [] then map (\<lambda>c. [c]) s else split_from sep [] s)"

text \<open>
  \<open>s.replaceAll(pat, rep)\<close> for a string pattern: every occurrence of \<open>pat\<close>, from
  the left and not overlapping, becomes \<open>rep\<close>. The replacements of the source
  (\<open>catalog_id[]\<close>, \<open>status_id[]\<close>, \<open>s\<close>) hold no \<open>$\<close>, so no replacement pattern
  is expanded. The patterns of the source are not empty; for the empty pattern
  JavaScript puts \<open>rep\<close> before every code unit and at the end.
\<close>

function str_replaceAll :: "jsstring \<Rightarrow> jsstring \<Rightarrow> jsstring \<Rightarrow> jsstring" where
  "str_replaceAll [] pat rep = (if pat = [] then rep else [])"
| "str_replaceAll (c # cs) pat rep =
     (if pat = [] then rep @ c # str_replaceAll cs pat rep
      else if prefix pat (c # cs)
      then rep @ str_replaceAll (drop (length pat) (c # cs)) pat rep
      else c # str_replaceAll cs pat rep)"
  by pat_completeness auto
termination
  by (relation "measure (\<lambda>(s, pat, rep). length s)") auto

text \<open>Joining the pieces of a list with a separator (\<open>&\<close> between the parameters).\<close>

fun join :: "jsstring \<Rightarrow> jsstring list \<Rightarrow> jsstring" where
  "join sep [] = []"
| "join sep [x] = x"
| "join sep (x # y # ys) = x @ sep @ join sep (y # ys)"

section \<open>Errors\<close>

text \<open>
  Every \<open>throw\<close> of the source and every exception of the platform functions it calls
  is a value. \<open>Error m\<close> is \<open>new Error(m)\<close> thrown by the source; \<open>URIError\<close> is thrown
  by \<open>decodeURI\<close>, \<open>SyntaxError\<close> by \<open>JSON.parse\<close>, \<open>TypeError\<close> by a property access
  on \<open>undefined\<close> or \<open>null\<close> and by a property assignment to a primitive (the file is
  a module, so strict mode); \<open>External x\<close> is an exception or a rejected promise of a
  collaborator (proxy handler, proxy agent, transport).
\<close>

type_synonym thrown = jsstring

datatype error =
    Error jsstring
  | URIError
  | SyntaxError
  | TypeError
  | External thrown

section \<open>decodeURI\<close>

text \<open>
  \<open>decodeURI\<close> is ECMAScript's \<open>Decode\<close> with the reserved set \<open>;/?:@&=+$,#\<close>:
  an escape \<open>%XX\<close> of a byte below 128 becomes that character unless it is reserved
  (then the escape stays as written); a byte with leading one bits starts a UTF-8
  sequence of escapes, which becomes the UTF-16 code units of its code point; anything
  else (a cut escape, a digit that is not hexadecimal, a sequence that is not valid
  UTF-8) throws \<open>URIError\<close>, here \<open>None\<close>.
\<close>

definition hexDigit :: "nat \<Rightarrow> nat option" where
  "hexDigit c =
     (if 48 \<le> c \<and> c \<le> 57 then Some (c - 48)
      else if 97 \<le> c \<and> c \<le> 102 then Some (c - 87)
      else if 65 \<le> c \<and> c \<le> 70 then Some (c - 55)
      else None)"

fun parseHexOctet :: "jsstring \<Rightarrow> (nat \<times> jsstring) option" where
  "parseHexOctet (p # h # l # rest) =
     (if p = 37 then
        (case hexDigit h of None \<Rightarrow> None
         | Some a \<Rightarrow> (case hexDigit l of None \<Rightarrow> None | Some b \<Rightarrow> Some (16 * a + b, rest)))
      else None)"
| "parseHexOctet _ = None"

fun continuationOctets :: "nat \<Rightarrow> jsstring \<Rightarrow> (nat list \<times> jsstring) option" where
  "continuationOctets 0 s = Some ([], s)"
| "continuationOctets (Suc n) s =
     (case parseHexOctet s of None \<Rightarrow> None
      | Some (b, r) \<Rightarrow>
          (case continuationOctets n r of None \<Rightarrow> None
           | Some (bs, r') \<Rightarrow> Some (b # bs, r')))"

definition leadingOnes :: "nat \<Rightarrow> nat" where
  "leadingOnes b =
     (if b < 128 then 0 else if b < 192 then 1 else if b < 224 then 2
      else if b < 240 then 3 else if b < 248 then 4 else 5)"

definition isContinuation :: "nat \<Rightarrow> bool" where
  "isContinuation b = (128 \<le> b \<and> b < 192)"

text \<open>The code point of a UTF-8 sequence of two to four octets, if the sequence is valid:
  continuation octets \<open>10xxxxxx\<close>, no overlong form, no surrogate, at most \<open>0x10FFFF\<close>.\<close>

fun utf8CodePoint :: "nat list \<Rightarrow> nat option" where
  "utf8CodePoint [b, c1] =
     (let v = (b - 192) * 64 + (c1 - 128)
      in if isContinuation c1 \<and> 128 \<le> v then Some v else None)"
| "utf8CodePoint [b, c1, c2] =
     (let v = (b - 224) * 4096 + (c1 - 128) * 64 + (c2 - 128)
      in if isContinuation c1 \<and> isContinuation c2 \<and> 2048 \<le> v \<and> \<not> (55296 \<le> v \<and> v \<le> 57343)
         then Some v else None)"
| "utf8CodePoint [b, c1, c2, c3] =
     (let v = (b - 240) * 262144 + (c1 - 128) * 4096 + (c2 - 128) * 64 + (c3 - 128)
      in if isContinuation c1 \<and> isContinuation c2 \<and> isContinuation c3
            \<and> 65536 \<le> v \<and> v \<le> 1114111
         then Some v else None)"
| "utf8CodePoint _ = None"

definition utf16Encode :: "nat \<Rightarrow> jsstring" where
  "utf16Encode cp =
     (if cp < 65536 then [cp]
      else [55296 + (cp - 65536) div 1024, 56320 + (cp - 65536) mod 1024])"

definition uriReserved :: jsstring where
  "uriReserved = js '';/?:@&=+$,#''"

lemma parseHexOctet_shorter: "parseHexOctet s = Some (b, r) \<Longrightarrow> length r < length s"
  by (cases s rule: parseHexOctet.cases) (auto split: if_splits option.splits)

lemma continuationOctets_shorter: "continuationOctets n s = Some (bs, r) \<Longrightarrow> length r \<le> length s"
proof (induction n arbitrary: s bs r)
  case 0
  then show ?case by simp
next
  case (Suc n)
  then show ?case
    by (fastforce split: option.splits dest: parseHexOctet_shorter)
qed

function Decode :: "jsstring \<Rightarrow> jsstring option" where
  "Decode [] = Some []"
| "Decode (c # cs) =
     (if c \<noteq> 37 then map_option ((#) c) (Decode cs)
      else
        (case parseHexOctet (c # cs) of None \<Rightarrow> None
         | Some (b, rest) \<Rightarrow>
             (if leadingOnes b = 0 then
                (if b \<in> set uriReserved
                 then map_option ((@) (take 3 (c # cs))) (Decode rest)
                 else map_option ((#) b) (Decode rest))
              else if leadingOnes b = 1 \<or> 4 < leadingOnes b then None
              else
                (case continuationOctets (leadingOnes b - 1) rest of None \<Rightarrow> None
                 | Some (bs, rest') \<Rightarrow>
                     (case utf8CodePoint (b # bs) of None \<Rightarrow> None
                      | Some cp \<Rightarrow> map_option ((@) (utf16Encode cp)) (Decode rest'))))))"
  by pat_completeness auto
termination
  by (relation "measure length")
     (auto dest!: parseHexOctet_shorter continuationOctets_shorter)

definition decodeURI :: "jsstring \<Rightarrow> error + jsstring" where
  "decodeURI s = (case Decode s of None \<Rightarrow> Inl URIError | Some r \<Rightarrow> Inr r)"

section \<open>The regular expression of the URI check\<close>

text \<open>
  The source tests the decoded URI against
  \<^verbatim>\<open>/^https:\/\/(www.)?vinted\.([a-z]+)\/(vetements|catalog)\?[^\s]+/\<close>.
  The constructs this expression uses are the constructors of \<open>regex\<close>: a literal
  run of characters, the dot (any code unit but a line terminator: the expression has
  no \<open>s\<close> flag), a character class repeated one or more times, sequence, alternative
  and option. \<open>rests r s\<close> lists what remains of \<open>s\<close> after each way of matching
  \<open>r\<close> at its start; the expression is anchored by \<open>^\<close> and has no \<open>$\<close>, so the
  string matches when some way exists.
\<close>

datatype charclass = LowerAZ | NotSpace

datatype regex =
    Lit jsstring
  | Dot
  | Plus charclass
  | Seq regex regex
  | Alt regex regex
  | Opt regex

definition lineTerminator :: "nat \<Rightarrow> bool" where
  "lineTerminator c = (c = 10 \<or> c = 13 \<or> c = 8232 \<or> c = 8233)"

text \<open>\<open>\s\<close>: the white space and line terminator code units of ECMAScript.\<close>

definition whiteSpace :: "nat \<Rightarrow> bool" where
  "whiteSpace c =
     (c = 9 \<or> c = 10 \<or> c = 11 \<or> c = 12 \<or> c = 13 \<or> c = 32 \<or> c = 160 \<or> c = 5760
      \<or> (8192 \<le> c \<and> c \<le> 8202) \<or> c = 8232 \<or> c = 8233 \<or> c = 8239 \<or> c = 8287
      \<or> c = 12288 \<or> c = 65279)"

fun inClass :: "charclass \<Rightarrow> nat \<Rightarrow> bool" where
  "inClass LowerAZ c = (97 \<le> c \<and> c \<le> 122)"
| "inClass NotSpace c = (\<not> whiteSpace c)"

fun rests :: "regex \<Rightarrow> jsstring \<Rightarrow> jsstring list" where
  "rests (Lit l) s = (if prefix l s then [drop (length l) s] else [])"
| "rests Dot s = (case s of [] \<Rightarrow> [] | c # cs \<Rightarrow> if lineTerminator c then [] else [cs])"
| "rests (Plus k) s =
     map (\<lambda>n. drop n s) (rev [1 ..< Suc (length (takeWhile (inClass k) s))])"
| "rests (Seq a b) s = concat (map (rests b) (rests a s))"
| "rests (Alt a b) s = rests a s @ rests b s"
| "rests (Opt a) s = rests a s @ [s]"

definition vintedURI :: regex where
  "vintedURI =
     Seq (Lit (js ''https://''))
    (Seq (Opt (Seq (Lit (js ''www'')) Dot))
    (Seq (Lit (js ''vinted.''))
    (Seq (Plus LowerAZ)
    (Seq (Lit (js ''/''))
    (Seq (Alt (Lit (js ''vetements'')) (Lit (js ''catalog'')))
    (Seq (Lit (js ''?''))
         (Plus NotSpace)))))))"

definition str_match :: "jsstring \<Rightarrow> regex \<Rightarrow> bool" where
  "str_match s r = (rests r s \<noteq> [])"

text \<open>
  The pattern in the words of claim C3, to be compared with the expression of the
  source: \<open>https\<close>, an optional \<open>www.\<close> prefix, the host \<open>vinted.<tld>\<close>, the
  path \<open>vetements\<close> or \<open>catalog\<close>, \<open>?\<close> and a query that is not empty. It is
  \<open>vintedURI\<close> with a literal dot after \<open>www\<close>.
\<close>

definition claimedURI :: regex where
  "claimedURI =
     Seq (Lit (js ''https://''))
    (Seq (Opt (Lit (js ''www.'')))
    (Seq (Lit (js ''vinted.''))
    (Seq (Plus LowerAZ)
    (Seq (Lit (js ''/''))
    (Seq (Alt (Lit (js ''vetements'')) (Lit (js ''catalog'')))
    (Seq (Lit (js ''?''))
         (Plus NotSpace)))))))"

section \<open>The parameter object\<close>

text \<open>
  \<open>paramsObject\<close> is an ordinary object created by \<open>{}\<close>: its own properties, in
  the order of their creation, and behind them the properties of \<open>Object.prototype\<close>.
  The source reads \<open>paramsObject[key]\<close> and tests the value for truth, so an inherited
  property counts as present. \<open>inherited key\<close> is the string that an inherited value
  becomes in \<open>+=\<close> (the text of a native function as Node.js prints it; the prototype
  object itself for \<open>__proto__\<close>).
\<close>

type_synonym jsobject = "(jsstring \<times> jsstring) list"

definition nativeFunctions :: "(jsstring \<times> jsstring) list" where
  "nativeFunctions =
     [(js ''constructor'', js ''Object''),
      (js ''__defineGetter__'', js ''__defineGetter__''),
      (js ''__defineSetter__'', js ''__defineSetter__''),
      (js ''hasOwnProperty'', js ''hasOwnProperty''),
      (js ''__lookupGetter__'', js ''__lookupGetter__''),
      (js ''__lookupSetter__'', js ''__lookupSetter__''),
      (js ''isPrototypeOf'', js ''isPrototypeOf''),
      (js ''propertyIsEnumerable'', js ''propertyIsEnumerable''),
      (js ''toString'', js ''toString''),
      (js ''valueOf'', js ''valueOf''),
      (js ''toLocaleString'', js ''toLocaleString'')]"

definition inherited :: "jsstring \<Rightarrow> jsstring option" where
  "inherited key =
     (if key = js ''__proto__'' then Some (js ''[object Object]'')
      else map_option (\<lambda>name. js ''function '' @ name @ js ''() { [native code] }'')
             (map_of nativeFunctions key))"

text \<open>
  \<open>obj[key] = v\<close>: an own property keeps its place, a new one goes to the end. The
  setter of \<open>__proto__\<close> ignores a value that is not an object, so a string assigned
  to it creates no property.
\<close>

fun put_own :: "jsstring \<Rightarrow> jsstring \<Rightarrow> jsobject \<Rightarrow> jsobject" where
  "put_own key v [] = [(key, v)]"
| "put_own key v ((k, w) # ps) = (if k = key then (k, v) # ps else (k, w) # put_own key v ps)"

definition assign :: "jsobject \<Rightarrow> jsstring \<Rightarrow> jsstring \<Rightarrow> jsobject" where
  "assign obj key v = (if key = js ''__proto__'' then obj else put_own key v obj)"

text \<open>
  The body of \<open>params.forEach\<close> for one parameter that split into \<open>key\<close> and \<open>v\<close>:
  \<^verbatim>\<open>if (paramsObject[key]) paramsObject[key] += `,${v}`; else paramsObject[key] = `${v}`;\<close>
  An own value is true when it is not the empty string; an inherited value (a
  function, the prototype object) is always true.
\<close>

definition organize :: "jsobject \<Rightarrow> jsstring \<Rightarrow> jsstring \<Rightarrow> jsobject" where
  "organize obj key v =
     (case map_of obj key of
        Some cur \<Rightarrow> if cur \<noteq> [] then assign obj key (cur @ js '','' @ v)
                    else assign obj key v
      | None \<Rightarrow>
          (case inherited key of
             Some cur \<Rightarrow> assign obj key (cur @ js '','' @ v)
           | None \<Rightarrow> assign obj key v))"

text \<open>
  \<open>Object.keys\<close>: the keys that are array indices (canonical decimal numerals up to
  \<open>2^32 - 2\<close>) first, in ascending numeric order, then the other keys in the order
  of their creation.
\<close>

fun decimal :: "jsstring \<Rightarrow> nat \<Rightarrow> nat option" where
  "decimal [] acc = Some acc"
| "decimal (c # cs) acc =
     (if 48 \<le> c \<and> c \<le> 57 then decimal cs (10 * acc + (c - 48)) else None)"

definition arrayIndex :: "jsstring \<Rightarrow> nat option" where
  "arrayIndex key =
     (case key of [] \<Rightarrow> None
      | c # cs \<Rightarrow>
          if c = 48 \<and> cs \<noteq> [] then None
          else (case decimal key 0 of None \<Rightarrow> None
                | Some n \<Rightarrow> if n \<le> 4294967294 then Some n else None))"

definition Object_keys :: "jsobject \<Rightarrow> jsstring list" where
  "Object_keys obj =
     sort_key (\<lambda>k. the (arrayIndex k)) (filter (\<lambda>k. arrayIndex k \<noteq> None) (map fst obj))
     @ filter (\<lambda>k. arrayIndex k = None) (map fst obj)"

section \<open>getQueryParameters\<close>

text \<open>
  Lines 146 to 197 of \<open>VintedHandler.ts\<close>. \<open>organizeAll\<close> is the \<open>params.forEach\<close>
  of lines 174 to 182: the first parameter that does not split into two parts on
  \<open>=\<close> throws, and the object built so far is lost with it. \<open>finalParams\<close> is the
  loop of lines 189 to 194.
\<close>

fun organizeAll :: "jsobject \<Rightarrow> jsstring list \<Rightarrow> error + jsobject" where
  "organizeAll obj [] = Inr obj"
| "organizeAll obj (param # params) =
     (case str_split param (js ''='') of
        [key, v] \<Rightarrow> organizeAll (organize obj key v) params
      | _ \<Rightarrow> Inl (Error (js ''Invalid URI parameters: '' @ param)))"

fun finalParams :: "jsobject \<Rightarrow> jsstring \<Rightarrow> jsstring list \<Rightarrow> jsstring" where
  "finalParams obj acc [] = acc"
| "finalParams obj acc (key # keys) =
     finalParams obj
       (if key \<noteq> js ''time'' then
          (if acc \<noteq> [] then acc @ js ''&'' @ key @ js ''='' @ the (map_of obj key)
           else acc @ key @ js ''='' @ the (map_of obj key))
        else acc)
       keys"

definition getQueryParameters :: "jsstring \<Rightarrow> error + jsstring" where
  "getQueryParameters url =
     (case decodeURI url of
        Inl e \<Rightarrow> Inl e
      | Inr URI \<Rightarrow>
          if \<not> str_match URI vintedURI then Inl (Error (js ''Invalid URI format''))
          else
            (case str_split URI (js ''?'') of
               [_, query] \<Rightarrow>
                 (let queryString =
                        str_replaceAll
                          (str_replaceAll
                             (str_replaceAll query (js ''catalog[]'') (js ''catalog_id[]''))
                             (js ''status[]'') (js ''status_id[]''))
                          (js ''[]'') (js ''s'')
                  in case organizeAll [] (str_split queryString (js ''&'')) of
                       Inl e \<Rightarrow> Inl e
                     | Inr paramsObject \<Rightarrow>
                         Inr (finalParams paramsObject [] (Object_keys paramsObject)))
             | _ \<Rightarrow> Inl (Error (js ''Invalid URI parameters''))))"

section \<open>Parsed JSON values\<close>

text \<open>
  What \<open>JSON.parse\<close> returns: \<open>null\<close>, a boolean, a number, a string, an array or
  an object. The pipeline only stores the property \<open>proxy\<close> and reads the property
  \<open>message_code\<close>, so a number stays opaque. An array carries, next to its elements,
  the named properties stored on it.
\<close>

typedecl number

datatype jsvalue =
    JNull
  | JBoolean bool
  | JNumber number
  | JString jsstring
  | JArray "jsvalue list" "(jsstring \<times> jsvalue) list"
  | JObject "(jsstring \<times> jsvalue) list"

fun put_property :: "jsstring \<Rightarrow> jsvalue \<Rightarrow> (jsstring \<times> jsvalue) list \<Rightarrow> (jsstring \<times> jsvalue) list" where
  "put_property key v [] = [(key, v)]"
| "put_property key v ((k, w) # ps) =
     (if k = key then (k, v) # ps else (k, w) # put_property key v ps)"

text \<open>
  \<open>json.proxy = proxy\<close> (line 126): stored on an object or an array; \<open>TypeError\<close> on
  \<open>null\<close>, and in strict mode also on a boolean, a number and a string.
\<close>

fun set_proxy :: "jsvalue \<Rightarrow> jsstring \<Rightarrow> error + jsvalue" where
  "set_proxy (JObject ps) proxy = Inr (JObject (put_property (js ''proxy'') (JString proxy) ps))"
| "set_proxy (JArray es ps) proxy = Inr (JArray es (put_property (js ''proxy'') (JString proxy) ps))"
| "set_proxy _ proxy = Inl TypeError"

text \<open>
  \<open>json.message_code\<close> (lines 128 and 133): \<open>TypeError\<close> on \<open>null\<close>; the own
  property of an object or an array, or \<open>undefined\<close> (\<open>None\<close>); \<open>undefined\<close> on
  a boolean, a number and a string, whose prototypes have no such property.
\<close>

fun message_code :: "jsvalue \<Rightarrow> error + jsvalue option" where
  "message_code JNull = Inl TypeError"
| "message_code (JObject ps) = Inr (map_of ps (js ''message_code''))"
| "message_code (JArray es ps) = Inr (map_of ps (js ''message_code''))"
| "message_code _ = Inr None"

section \<open>The platform and the scraper\<close>

text \<open>
  The transport (\<open>fetch\<close> of node-fetch), the proxy agent constructor, the proxy
  handler (\<open>ProxyHandler.getProxy\<close>) and \<open>JSON.parse\<close> are not code of this file.
  They are the fields of a \<open>platform\<close>, and every theorem holds for every platform.
  What a collaborator answers may depend on everything that happened before: the world
  is the list of the events so far, oldest first, and every call of a collaborator
  adds its event. \<open>fetch\<close> is the awaited call (a response, or an exception or
  rejection); \<open>fetch_start\<close> is the call that is not awaited, of which the program
  only sees whether it threw.
\<close>

datatype agent = ProxyAgent jsstring

record http_request =
  req_url :: jsstring
  req_cookie :: "jsstring option"
  req_agent :: "agent option"

record response =
  set_cookie :: "jsstring option"
  body_text :: "thrown + jsstring"

datatype event =
    ProxyTaken "thrown + jsstring"
  | Fetched http_request "thrown + response"
  | Started http_request "thrown option"

type_synonym world = "event list"

record platform =
  getProxy :: "jsstring list \<Rightarrow> world \<Rightarrow> thrown + jsstring"
  HttpsProxyAgent :: "jsstring \<Rightarrow> thrown + agent"
  fetch :: "world \<Rightarrow> http_request \<Rightarrow> thrown + response"
  fetch_start :: "world \<Rightarrow> http_request \<Rightarrow> thrown option"
  JSON_parse :: "jsstring \<Rightarrow> jsvalue option"

text \<open>
  The two private fields of the class. \<open>proxyHandler\<close> holds the proxies the handler
  was built from; the constructor (lines 19 to 26) builds it when an array is given.
\<close>

record scraper =
  proxyHandler :: "jsstring list option"
  sessionCookie :: "jsstring option"

definition VintedScraper :: "jsstring list option \<Rightarrow> scraper" where
  "VintedScraper proxies = \<lparr>proxyHandler = proxies, sessionCookie = None\<rparr>"

text \<open>
  \<^verbatim>\<open>let proxy = ""; if (this.#proxyHandler) proxy = this.#proxyHandler.getProxy();\<close>
  (lines 68 to 75, 98 to 105 and 203 to 210).
\<close>

definition takeProxy :: "platform \<Rightarrow> scraper \<Rightarrow> world \<Rightarrow> (error + jsstring) \<times> world" where
  "takeProxy P this w =
     (case proxyHandler this of
        None \<Rightarrow> (Inr [], w)
      | Some proxies \<Rightarrow>
          (case getProxy P proxies w of
             Inl x \<Rightarrow> (Inl (External x), w @ [ProxyTaken (Inl x)])
           | Inr proxy \<Rightarrow> (Inr proxy, w @ [ProxyTaken (Inr proxy)])))"

text \<open>\<^verbatim>\<open>proxy !== "" ? HttpsProxyAgent(proxy) : undefined\<close>\<close>

definition agentFor :: "platform \<Rightarrow> jsstring \<Rightarrow> error + agent option" where
  "agentFor P proxy =
     (if proxy \<noteq> [] then
        (case HttpsProxyAgent P proxy of Inl x \<Rightarrow> Inl (External x) | Inr a \<Rightarrow> Inr (Some a))
      else Inr None)"

text \<open>An awaited \<open>fetch\<close>: the answer of the transport, recorded in the world.\<close>

definition awaitFetch :: "platform \<Rightarrow> world \<Rightarrow> http_request \<Rightarrow> (error + response) \<times> world" where
  "awaitFetch P w req =
     (case fetch P w req of
        Inl x \<Rightarrow> (Inl (External x), w @ [Fetched req (Inl x)])
      | Inr res \<Rightarrow> (Inr res, w @ [Fetched req (Inr res)]))"

section \<open>fetchSessionCookie\<close>

text \<open>
  Lines 202 to 228. \<open>cookieValue\<close> is the expression of line 227,
  \<^verbatim>\<open>header.split("_vinted_fr_session=")[1]!.split(";")[0]\<close>: the second piece of the
  first split, and of it the first piece of the second split (a split on a separator
  that is not empty has a first piece). A header that holds the cookie name but not the
  name followed by \<open>=\<close> passes the check of line 220 and splits into one piece, so
  line 227 calls \<open>split\<close> on \<open>undefined\<close>: \<open>TypeError\<close>.
\<close>

definition cookieValue :: "jsstring \<Rightarrow> error + jsstring" where
  "cookieValue header =
     (case str_split header (js ''_vinted_fr_session='') of
        _ # piece # _ \<Rightarrow> Inr (hd (str_split piece (js '';'')))
      | _ \<Rightarrow> Inl TypeError)"

definition fetchSessionCookie ::
  "platform \<Rightarrow> scraper \<Rightarrow> world \<Rightarrow> (error + unit) \<times> scraper \<times> world" where
  "fetchSessionCookie P this w =
     (case takeProxy P this w of
        (Inl e, w1) \<Rightarrow> (Inl e, this, w1)
      | (Inr proxy, w1) \<Rightarrow>
     (case agentFor P proxy of
        Inl e \<Rightarrow> (Inl e, this, w1)
      | Inr agent \<Rightarrow>
     (case awaitFetch P w1
             \<lparr>req_url = js ''https://vinted.de'', req_cookie = None, req_agent = agent\<rparr> of
        (Inl e, w2) \<Rightarrow> (Inl e, this, w2)
      | (Inr res, w2) \<Rightarrow>
          (case set_cookie res of
             None \<Rightarrow> (Inl (Error (js ''Cannot fetch cookie'')), this, w2)
           | Some header \<Rightarrow>
               if \<not> str_includes header (js ''_vinted_fr_session'')
               then (Inl (Error (js ''Cannot fetch cookie'')), this, w2)
               else
                 (case cookieValue header of
                    Inl e \<Rightarrow> (Inl e, this, w2)
                  | Inr v \<Rightarrow> (Inr (), this\<lparr>sessionCookie := Some v\<rparr>, w2))))))"

section \<open>request\<close>

text \<open>
  Lines 90 to 138. \<open>obtainText\<close> is lines 94 to 114: the session cookie is fetched
  when the field is \<open>undefined\<close> or the empty string, a proxy is taken, the GET is sent
  with the cookie header and awaited, and the body is read. The template literal of
  line 109 prints \<open>undefined\<close> for a field that is not set. \<open>request\<close> is the whole
  method: lines 116 to 137 classify the text, and line 130 calls the method again,
  with no bound, so the model is a partial function and \<open>None\<close> is a call that never
  returns.
\<close>

definition cookieHeader :: "jsstring option \<Rightarrow> jsstring" where
  "cookieHeader c =
     js ''_vinted_fr_session='' @ (case c of None \<Rightarrow> js ''undefined'' | Some t \<Rightarrow> t)"

definition obtainText ::
  "platform \<Rightarrow> scraper \<Rightarrow> world \<Rightarrow> jsstring \<Rightarrow> (error + jsstring \<times> jsstring) \<times> scraper \<times> world" where
  "obtainText P this w url =
     (case (if sessionCookie this = None \<or> sessionCookie this = Some []
            then fetchSessionCookie P this w else (Inr (), this, w)) of
        (Inl e, this1, w1) \<Rightarrow> (Inl e, this1, w1)
      | (Inr _, this1, w1) \<Rightarrow>
     (case takeProxy P this1 w1 of
        (Inl e, w2) \<Rightarrow> (Inl e, this1, w2)
      | (Inr proxy, w2) \<Rightarrow>
     (case agentFor P proxy of
        Inl e \<Rightarrow> (Inl e, this1, w2)
      | Inr agent \<Rightarrow>
     (case awaitFetch P w2
             \<lparr>req_url = url, req_cookie = Some (cookieHeader (sessionCookie this1)),
              req_agent = agent\<rparr> of
        (Inl e, w3) \<Rightarrow> (Inl e, this1, w3)
      | (Inr res, w3) \<Rightarrow>
          (case body_text res of
             Inl x \<Rightarrow> (Inl (External x), this1, w3)
           | Inr text \<Rightarrow> (Inr (proxy, text), this1, w3))))))"

partial_function (option) request ::
  "platform \<Rightarrow> scraper \<Rightarrow> world \<Rightarrow> jsstring \<Rightarrow> ((error + jsvalue) \<times> scraper \<times> world) option" where
  "request P this w url =
     (case obtainText P this w url of
        (Inl e, this1, w1) \<Rightarrow> Some (Inl e, this1, w1)
      | (Inr (proxy, text), this1, w1) \<Rightarrow>
          if str_includes text (js ''Request rate limit exceeded'')
          then Some (Inl (Error (js ''Request rate limit exceeded'')), this1, w1)
          else if str_includes text (js ''<'')
          then Some (Inl (Error (js ''Bad Gateway'')), this1, w1)
          else
            (case JSON_parse P text of
               None \<Rightarrow> Some (Inl SyntaxError, this1, w1)
             | Some parsed \<Rightarrow>
            (case (if proxy \<noteq> [] then set_proxy parsed proxy else Inr parsed) of
               Inl e \<Rightarrow> Some (Inl e, this1, w1)
             | Inr json \<Rightarrow>
            (case message_code json of
               Inl e \<Rightarrow> Some (Inl e, this1, w1)
             | Inr code \<Rightarrow>
                 if code = Some (JString (js ''invalid_authentication_token''))
                 then
                   (case fetchSessionCookie P this1 w1 of
                      (Inl e, this2, w2) \<Rightarrow> Some (Inl e, this2, w2)
                    | (Inr _, this2, w2) \<Rightarrow> request P this2 w2 url)
                 else if code = Some (JString (js ''not_found''))
                 then Some (Inl (Error (js ''not_found'')), this1, w1)
                 else Some (Inr json, this1, w1)))))"

section \<open>getQueryParameters as a method of the class\<close>

text \<open>
  \<open>getQueryParameters\<close> above is the value that lines 146 to 197 compute from the
  URL. The source has them as a private method: like every method of the class it runs
  with \<open>this\<close> (the proxy handler, the session cookie) and the imported \<open>fetch\<close>
  in reach, and the arrow functions it hands to \<open>forEach\<close> update its local
  variables \<open>paramsObject\<close> and \<open>finalParams\<close>. A \<open>frame\<close> is everything the
  body and its callbacks can read and write: the scraper, the world, and the two
  variables. \<open>organizeParam\<close> is the callback of lines 174 to 182, \<open>formatParam\<close>
  the callback of lines 189 to 194; \<open>forEach\<close> runs a callback on the elements in
  order and stops at the first one that throws. A call that throws leaves the scraper
  and the world as they are at the \<open>throw\<close>.
\<close>

record frame =
  frame_this :: scraper
  frame_world :: world
  frame_paramsObject :: jsobject
  frame_finalParams :: jsstring

fun forEach ::
  "('a \<Rightarrow> frame \<Rightarrow> (error + unit) \<times> frame) \<Rightarrow> 'a list \<Rightarrow> frame \<Rightarrow> (error + unit) \<times> frame" where
  "forEach callback [] fr = (Inr (), fr)"
| "forEach callback (x # xs) fr =
     (case callback x fr of
        (Inl e, fr1) \<Rightarrow> (Inl e, fr1)
      | (Inr _, fr1) \<Rightarrow> forEach callback xs fr1)"

definition organizeParam :: "jsstring \<Rightarrow> frame \<Rightarrow> (error + unit) \<times> frame" where
  "organizeParam param fr =
     (case str_split param (js ''='') of
        [key, v] \<Rightarrow>
          (Inr (), fr\<lparr>frame_paramsObject := organize (frame_paramsObject fr) key v\<rparr>)
      | _ \<Rightarrow> (Inl (Error (js ''Invalid URI parameters: '' @ param)), fr))"

definition formatParam :: "jsstring \<Rightarrow> frame \<Rightarrow> (error + unit) \<times> frame" where
  "formatParam paramObject fr =
     (Inr (),
      if paramObject \<noteq> js ''time'' then
        (if frame_finalParams fr \<noteq> []
         then fr\<lparr>frame_finalParams :=
                   frame_finalParams fr @ js ''&'' @ paramObject @ js ''=''
                   @ the (map_of (frame_paramsObject fr) paramObject)\<rparr>
         else fr\<lparr>frame_finalParams :=
                   frame_finalParams fr @ paramObject @ js ''=''
                   @ the (map_of (frame_paramsObject fr) paramObject)\<rparr>)
      else fr)"

definition getQueryParameters_method ::
  "scraper \<Rightarrow> world \<Rightarrow> jsstring \<Rightarrow> (error + jsstring) \<times> scraper \<times> world" where
  "getQueryParameters_method this w url =
     (case decodeURI url of
        Inl e \<Rightarrow> (Inl e, this, w)
      | Inr URI \<Rightarrow>
          if \<not> str_match URI vintedURI
          then (Inl (Error (js ''Invalid URI format'')), this, w)
          else
            (case str_split URI (js ''?'') of
               [_, query] \<Rightarrow>
                 (let queryString =
                        str_replaceAll
                          (str_replaceAll
                             (str_replaceAll query (js ''catalog[]'') (js ''catalog_id[]''))
                             (js ''status[]'') (js ''status_id[]''))
                          (js ''[]'') (js ''s'');
                      params = str_split queryString (js ''&'');
                      fr0 = \<lparr>frame_this = this, frame_world = w,
                             frame_paramsObject = [], frame_finalParams = []\<rparr>
                  in case forEach organizeParam params fr0 of
                       (Inl e, fr1) \<Rightarrow> (Inl e, frame_this fr1, frame_world fr1)
                     | (Inr _, fr1) \<Rightarrow>
                         (case forEach formatParam (Object_keys (frame_paramsObject fr1)) fr1 of
                            (Inl e, fr2) \<Rightarrow> (Inl e, frame_this fr2, frame_world fr2)
                          | (Inr _, fr2) \<Rightarrow>
                              (Inr (frame_finalParams fr2), frame_this fr2, frame_world fr2)))
             | _ \<Rightarrow> (Inl (Error (js ''Invalid URI parameters'')), this, w)))"

section \<open>The public methods\<close>

text \<open>Lines 34 to 57. A number prints in a template literal as \<open>Number.toString\<close>
  gives it; the identifier arrives here as that text.\<close>

definition search ::
  "platform \<Rightarrow> scraper \<Rightarrow> world \<Rightarrow> jsstring \<Rightarrow> ((error + jsvalue) \<times> scraper \<times> world) option" where
  "search P this w url =
     (case getQueryParameters_method this w url of
        (Inl e, this1, w1) \<Rightarrow> Some (Inl e, this1, w1)
      | (Inr queryString, this1, w1) \<Rightarrow>
          request P this1 w1
            (js ''https://www.vinted.be/api/v2/catalog/items?'' @ queryString))"

definition fetchUser ::
  "platform \<Rightarrow> scraper \<Rightarrow> world \<Rightarrow> jsstring \<Rightarrow> ((error + jsvalue) \<times> scraper \<times> world) option" where
  "fetchUser P this w ident = request P this w (js ''https://www.vinted.be/api/v2/users/'' @ ident)"

definition fetchItem ::
  "platform \<Rightarrow> scraper \<Rightarrow> world \<Rightarrow> jsstring \<Rightarrow> ((error + jsvalue) \<times> scraper \<times> world) option" where
  "fetchItem P this w ident = request P this w (js ''https://www.vinted.de/api/v2/items/'' @ ident)"




section \<open>A scripted platform\<close>

text \<open>
  A platform to run the model on: the transport answers the awaited requests with the
  responses of a script, in order, and rejects once the script is used up; the proxy
  handler hands out its proxies in turn; the calls of \<open>fetch_start\<close> whose position
  is listed throw; \<open>JSON.parse\<close> knows the bodies of a table.
\<close>

fun isProxyTaken :: "event \<Rightarrow> bool" where
  "isProxyTaken (ProxyTaken r) = True"
| "isProxyTaken _ = False"

fun isFetched :: "event \<Rightarrow> bool" where
  "isFetched (Fetched req r) = True"
| "isFetched _ = False"

fun isStarted :: "event \<Rightarrow> bool" where
  "isStarted (Started req r) = True"
| "isStarted _ = False"

definition scripted :: "response list \<Rightarrow> nat list \<Rightarrow> (jsstring \<times> jsvalue) list \<Rightarrow> platform" where
  "scripted answers refused bodies =
     \<lparr>getProxy = (\<lambda>proxies w.
          if proxies = [] then Inl (js ''no proxy left'')
          else Inr (proxies ! (length (filter isProxyTaken w) mod length proxies))),
      HttpsProxyAgent = (\<lambda>proxy. Inr (ProxyAgent proxy)),
      fetch = (\<lambda>w req.
          if length (filter isFetched w) < length answers
          then Inr (answers ! length (filter isFetched w))
          else Inl (js ''ECONNRESET'')),
      fetch_start = (\<lambda>w req.
          if length (filter isStarted w) \<in> set refused then Some (js ''ECONNREFUSED'')
          else None),
      JSON_parse = map_of bodies\<rparr>"

definition cookieResponse :: "jsstring \<Rightarrow> response" where
  "cookieResponse header = \<lparr>set_cookie = Some header, body_text = Inr []\<rparr>"

definition bodyResponse :: "jsstring \<Rightarrow> response" where
  "bodyResponse text = \<lparr>set_cookie = None, body_text = Inr text\<rparr>"

definition staleBody :: jsstring where
  \<open>staleBody = js ''{"message_code":"invalid_authentication_token"}''\<close>

definition itemBody :: jsstring where
  \<open>itemBody = js ''{"item":{"id":"7"}}''\<close>

definition notFoundBody :: jsstring where
  \<open>notFoundBody = js ''{"message_code":"not_found"}''\<close>

definition rateLimitBody :: jsstring where
  \<open>rateLimitBody = js ''{"error":"Request rate limit exceeded","page":"<html>"}''\<close>

definition demoBodies :: "(jsstring \<times> jsvalue) list" where
  "demoBodies =
     [(rateLimitBody,
       JObject [(js ''error'', JString (js ''Request rate limit exceeded'')),
                (js ''page'', JString (js ''<html>''))]),
      (staleBody,
       JObject [(js ''message_code'', JString (js ''invalid_authentication_token''))]),
      (notFoundBody, JObject [(js ''message_code'', JString (js ''not_found''))]),
      (itemBody, JObject [(js ''item'', JObject [(js ''id'', JString (js ''7''))])])]"

definition demoUrl :: jsstring where
  "demoUrl = js ''https://www.vinted.de/api/v2/items/7''"

definition heldToken :: scraper where
  "heldToken = \<lparr>proxyHandler = None, sessionCookie = Some (js ''t0'')\<rparr>"

definition refreshScript :: "response list" where
  "refreshScript =
     [bodyResponse staleBody, cookieResponse (js ''_vinted_fr_session=t1; Path=/''),
      bodyResponse staleBody, cookieResponse (js ''_vinted_fr_session=t2; Path=/''),
      bodyResponse itemBody]"

text \<open>The events of a GET without a proxy: for data, with the token sent, and to the
  site root.\<close>

definition apiGet :: "jsstring \<Rightarrow> response \<Rightarrow> event" where
  "apiGet token res =
     Fetched \<lparr>req_url = demoUrl, req_cookie = Some (js ''_vinted_fr_session='' @ token),
              req_agent = None\<rparr> (Inr res)"

definition rootGet :: "response \<Rightarrow> event" where
  "rootGet res =
     Fetched \<lparr>req_url = js ''https://vinted.de'', req_cookie = None, req_agent = None\<rparr>
       (Inr res)"

text \<open>A server that answers every request for data with the stale-token sentinel.\<close>

definition staleForever :: platform where
  "staleForever =
     \<lparr>getProxy = (\<lambda>proxies w. Inr []),
      HttpsProxyAgent = (\<lambda>proxy. Inr (ProxyAgent proxy)),
      fetch = (\<lambda>w req.
          if req_cookie req = None
          then Inr (cookieResponse (js ''_vinted_fr_session=again; Path=/''))
          else Inr (bodyResponse staleBody)),
      fetch_start = (\<lambda>w req. None),
      JSON_parse = map_of demoBodies\<rparr>"

section \<open>Vocabulary of the properties\<close>

text \<open>
  The definitions of this section are not code of the program: they name what the
  theorems speak about. \<open>attempt\<close> is one run of the body of \<open>request\<close> up to its
  recursive call: \<open>Inl\<close> the result when the body returns or throws, \<open>Inr\<close> the
  scraper and the world with which line 130 calls \<open>request\<close> again
  (\<open>request_attempt\<close> below proves that \<open>request\<close> is the iteration of it).
\<close>

definition attempt ::
  "platform \<Rightarrow> scraper \<Rightarrow> world \<Rightarrow> jsstring
     \<Rightarrow> ((error + jsvalue) \<times> scraper \<times> world) + (scraper \<times> world)" where
  "attempt P this w url =
     (case obtainText P this w url of
        (Inl e, this1, w1) \<Rightarrow> Inl (Inl e, this1, w1)
      | (Inr (proxy, text), this1, w1) \<Rightarrow>
          if str_includes text (js ''Request rate limit exceeded'')
          then Inl (Inl (Error (js ''Request rate limit exceeded'')), this1, w1)
          else if str_includes text (js ''<'')
          then Inl (Inl (Error (js ''Bad Gateway'')), this1, w1)
          else
            (case JSON_parse P text of
               None \<Rightarrow> Inl (Inl SyntaxError, this1, w1)
             | Some parsed \<Rightarrow>
            (case (if proxy \<noteq> [] then set_proxy parsed proxy else Inr parsed) of
               Inl e \<Rightarrow> Inl (Inl e, this1, w1)
             | Inr json \<Rightarrow>
            (case message_code json of
               Inl e \<Rightarrow> Inl (Inl e, this1, w1)
             | Inr code \<Rightarrow>
                 if code = Some (JString (js ''invalid_authentication_token''))
                 then
                   (case fetchSessionCookie P this1 w1 of
                      (Inl e, this2, w2) \<Rightarrow> Inl (Inl e, this2, w2)
                    | (Inr _, this2, w2) \<Rightarrow> Inr (this2, w2))
                 else if code = Some (JString (js ''not_found''))
                 then Inl (Inl (Error (js ''not_found'')), this1, w1)
                 else Inl (Inr json, this1, w1)))))"

text \<open>
  \<open>stale_rounds k P url (this, w)\<close>: the scraper and the world after \<open>k\<close>
  attempts in a row that each end in the recursive call (the response carried the
  stale-token sentinel and the session was fetched again), if the first \<open>k\<close>
  attempts do end so.
\<close>

fun stale_rounds ::
  "nat \<Rightarrow> platform \<Rightarrow> jsstring \<Rightarrow> scraper \<times> world \<Rightarrow> (scraper \<times> world) option" where
  "stale_rounds 0 P url s = Some s"
| "stale_rounds (Suc k) P url s =
     (case attempt P (fst s) (snd s) url of
        Inl y \<Rightarrow> None
      | Inr s' \<Rightarrow> stale_rounds k P url s')"

text \<open>The errors that the classification of a response throws.\<close>

definition classificationError :: "error \<Rightarrow> bool" where
  "classificationError e =
     (e = Error (js ''Request rate limit exceeded'') \<or> e = Error (js ''Bad Gateway'')
      \<or> e = SyntaxError \<or> e = Error (js ''not_found''))"




section \<open>Facts about strings\<close>

lemma str_includes_iff: "str_includes s t \<longleftrightarrow> (\<exists>pre post. s = pre @ t @ post)"
proof (induction s)
  case Nil
  then show ?case by auto
next
  case (Cons c cs)
  show ?case
  proof
    assume "str_includes (c # cs) t"
    then consider "prefix t (c # cs)" | "str_includes cs t" by auto
    then show "\<exists>pre post. c # cs = pre @ t @ post"
    proof cases
      case 1
      then obtain post where "c # cs = t @ post" by (auto simp: prefix_def)
      then have "c # cs = [] @ t @ post" by simp
      then show ?thesis by blast
    next
      case 2
      with Cons.IH obtain pre post where "cs = pre @ t @ post" by blast
      then have "c # cs = (c # pre) @ t @ post" by simp
      then show ?thesis by blast
    qed
  next
    assume "\<exists>pre post. c # cs = pre @ t @ post"
    then obtain pre post where eq: "c # cs = pre @ t @ post" by blast
    show "str_includes (c # cs) t"
    proof (cases pre)
      case Nil
      with eq have "prefix t (c # cs)" by (metis append_Nil prefixI)
      then show ?thesis by simp
    next
      case (Cons p ps)
      with eq have "cs = ps @ t @ post" by simp
      with Cons.IH show ?thesis by auto
    qed
  qed
qed

lemma split_from_nonempty: "split_from sep acc s \<noteq> []"
  by (induction sep acc s rule: split_from.induct) auto

lemma split_from_acc:
  "sep \<noteq> [] \<Longrightarrow>
   split_from sep acc s = (rev acc @ hd (split_from sep [] s)) # tl (split_from sep [] s)"
proof (induction s arbitrary: acc)
  case Nil
  then show ?case by simp
next
  case (Cons c cs)
  show ?case
  proof (cases "prefix sep (c # cs)")
    case True
    with Cons.prems show ?thesis by simp
  next
    case False
    have a: "split_from sep (c # acc) cs =
        (rev (c # acc) @ hd (split_from sep [] cs)) # tl (split_from sep [] cs)"
      using Cons.IH[OF Cons.prems] .
    have b: "split_from sep [c] cs =
        (rev [c] @ hd (split_from sep [] cs)) # tl (split_from sep [] cs)"
      using Cons.IH[OF Cons.prems] .
    show ?thesis using False a b by simp
  qed
qed

text \<open>The first piece of a split ends at the first occurrence of the separator.\<close>

lemma split_from_first:
  assumes "sep \<noteq> []" "split_from sep [] s = a # r"
  shows "(r = [] \<and> s = a \<and> \<not> str_includes s sep)
       \<or> (\<exists>rem. s = a @ sep @ rem \<and> r = split_from sep [] rem
               \<and> (\<forall>k<length a. \<not> prefix sep (drop k s)))"
  using assms
proof (induction s arbitrary: a r)
  case Nil
  then show ?case by simp
next
  case (Cons c cs)
  show ?case
  proof (cases "prefix sep (c # cs)")
    case True
    then obtain rem where rem: "c # cs = sep @ rem" by (auto simp: prefix_def)
    then have d: "drop (length sep) (c # cs) = rem" by (metis append_eq_conv_conj)
    from True Cons.prems have "a = []" "r = split_from sep [] (drop (length sep) (c # cs))"
      by simp_all
    with rem d show ?thesis by simp
  next
    case False
    obtain a' r' where s': "split_from sep [] cs = a' # r'"
      using split_from_nonempty[of sep "[]" cs] by (cases "split_from sep [] cs") auto
    from False Cons.prems have "split_from sep [c] cs = a # r" by simp
    then have ar: "a = c # a'" "r = r'"
      using split_from_acc[OF Cons.prems(1), of "[c]" cs] s' by simp_all
    from Cons.IH[OF Cons.prems(1) s'] show ?thesis
    proof
      assume h: "r' = [] \<and> cs = a' \<and> \<not> str_includes cs sep"
      then have "r' = []" "cs = a'" "\<not> str_includes cs sep" by blast+
      with ar False show ?thesis by simp
    next
      assume "\<exists>rem. cs = a' @ sep @ rem \<and> r' = split_from sep [] rem
               \<and> (\<forall>k<length a'. \<not> prefix sep (drop k cs))"
      then obtain rem where rem: "cs = a' @ sep @ rem" "r' = split_from sep [] rem"
        and first: "\<forall>k<length a'. \<not> prefix sep (drop k cs)" by blast
      have "\<forall>k<length a. \<not> prefix sep (drop k (c # cs))"
      proof (intro allI impI)
        fix k assume k: "k < length a"
        show "\<not> prefix sep (drop k (c # cs))"
        proof (cases k)
          case 0
          with False show ?thesis by simp
        next
          case (Suc j)
          with k ar first show ?thesis by simp
        qed
      qed
      with rem ar show ?thesis by simp
    qed
  qed
qed


lemma split_char_hd: "hd (split_from [c] [] s) = takeWhile (\<lambda>x. x \<noteq> c) s"
proof (induction s)
  case Nil
  then show ?case by simp
next
  case (Cons x xs)
  then show ?case
    using split_from_acc[of "[c]" "[x]" xs] by simp
qed


lemma js_nonempty: "s \<noteq> [] \<Longrightarrow> js s \<noteq> []"
  by (simp add: js_def)

lemma js_semicolon: "js '';'' = [59]"
  by (simp add: js_def)

text \<open>A string that does not hold \<open>sep\<close> does not hold it from any position on.\<close>

lemma str_includes_drop:
  assumes "\<not> str_includes s sep"
  shows "\<not> prefix sep (drop k s)"
proof
  assume "prefix sep (drop k s)"
  then obtain post where "drop k s = sep @ post" by (auto simp: prefix_def)
  then have "s = take k s @ sep @ post" by (metis append_take_drop_id)
  with assms show False by (auto simp: str_includes_iff)
qed

text \<open>
  The value of line 227: what follows the first \<open>_vinted_fr_session=\<close>, up to the
  first of a \<open>;\<close>, a further \<open>_vinted_fr_session=\<close> and the end.
\<close>

lemma cookieValue_Inr:
  assumes "cookieValue header = Inr tok"
  shows "\<exists>pre rest. header = pre @ js ''_vinted_fr_session='' @ tok @ rest
           \<and> (\<forall>k<length pre. \<not> prefix (js ''_vinted_fr_session='') (drop k header))
           \<and> 59 \<notin> set tok
           \<and> (\<forall>k<length tok. \<not> prefix (js ''_vinted_fr_session='') (drop k (tok @ rest)))
           \<and> (rest = [] \<or> hd rest = 59 \<or> prefix (js ''_vinted_fr_session='') rest)"
proof -
  let ?sep = "js ''_vinted_fr_session=''"
  have sep: "?sep \<noteq> []" by (simp add: js_nonempty)
  from assms obtain a piece r where sp: "split_from ?sep [] header = a # piece # r"
    and tok: "tok = hd (split_from [59] [] piece)"
    by (auto simp: cookieValue_def str_split_def sep js_semicolon split: list.splits)
  from split_from_first[OF sep sp] obtain rem where
    h: "header = a @ ?sep @ rem" and r: "piece # r = split_from ?sep [] rem"
    and first: "\<forall>k<length a. \<not> prefix ?sep (drop k header)"
    by auto
  define d where "d = dropWhile (\<lambda>x. x \<noteq> 59) piece"
  have tok': "tok = takeWhile (\<lambda>x. x \<noteq> 59) piece" using tok by (simp add: split_char_hd)
  then have piece: "piece = tok @ d" by (simp add: d_def)
  have notin: "59 \<notin> set tok" unfolding tok' by (auto dest: set_takeWhileD)
  have d: "d = [] \<or> hd d = 59" unfolding d_def
    by (metis (mono_tags, lifting) hd_dropWhile)
  from split_from_first[OF sep r[symmetric]]
  consider "rem = piece" "\<not> str_includes rem ?sep"
    | rem2 where "rem = piece @ ?sep @ rem2" "\<forall>k<length piece. \<not> prefix ?sep (drop k rem)"
    by blast
  then show ?thesis
  proof cases
    case 1
    with h piece have e: "header = a @ ?sep @ tok @ d" by simp
    have "\<forall>k<length tok. \<not> prefix ?sep (drop k (tok @ d))"
    proof (intro allI impI)
      fix k assume "k < length tok"
      from str_includes_drop[OF 1(2), of k] 1(1) piece
      show "\<not> prefix ?sep (drop k (tok @ d))" by simp
    qed
    with e first notin d show ?thesis by blast
  next
    case 2
    with h piece have e: "header = a @ ?sep @ tok @ (d @ ?sep @ rem2)" by simp
    from d have t: "hd (d @ ?sep @ rem2) = 59 \<or> prefix ?sep (d @ ?sep @ rem2)"
      by (cases d) auto
    have "\<forall>k<length tok. \<not> prefix ?sep (drop k (tok @ (d @ ?sep @ rem2)))"
    proof (intro allI impI)
      fix k assume "k < length tok"
      then have "k < length piece" using piece by simp
      with 2(2) have "\<not> prefix ?sep (drop k rem)" by blast
      then show "\<not> prefix ?sep (drop k (tok @ (d @ ?sep @ rem2)))"
        using 2(1) piece by simp
    qed
    with e first notin t show ?thesis by blast
  qed
qed

text \<open>The conditions fix the value: two readings of one header agree.\<close>

lemma cookie_value_unique:
  assumes a: "header = pre @ sep @ tok @ rest"
    and a1: "\<forall>k<length pre. \<not> prefix sep (drop k header)"
    and a2: "c \<notin> set tok"
    and a3: "\<forall>k<length tok. \<not> prefix sep (drop k (tok @ rest))"
    and a4: "rest = [] \<or> hd rest = c \<or> prefix sep rest"
    and b: "header = pre' @ sep @ tok' @ rest'"
    and b1: "\<forall>k<length pre'. \<not> prefix sep (drop k header)"
    and b2: "c \<notin> set tok'"
    and b3: "\<forall>k<length tok'. \<not> prefix sep (drop k (tok' @ rest'))"
    and b4: "rest' = [] \<or> hd rest' = c \<or> prefix sep rest'"
  shows "tok = tok'"
proof -
  have pa: "prefix sep (drop (length pre) header)" using a by simp
  have pb: "prefix sep (drop (length pre') header)" using b by simp
  from pa b1 have "\<not> length pre < length pre'" by blast
  moreover from pb a1 have "\<not> length pre' < length pre" by blast
  ultimately have "length pre = length pre'" by simp
  with a b have "pre = pre'" by (metis append_eq_append_conv)
  with a b have eq: "tok @ rest = tok' @ rest'" by simp
  have one: "\<not> length t < length t'"
    if eq: "t @ r = t' @ r'" and t': "c \<notin> set t'"
      and t3: "\<forall>k<length t'. \<not> prefix sep (drop k (t' @ r'))"
      and t4: "r = [] \<or> hd r = c \<or> prefix sep r" for t r t' r' :: "'a list"
  proof
    assume less: "length t < length t'"
    have r: "r = drop (length t) (t' @ r')" using eq by (metis append_eq_conv_conj)
    with less have rne: "r \<noteq> []" by simp
    have "hd r = t' ! length t" using r less by (simp add: hd_drop_conv_nth nth_append)
    with less t' have "hd r \<noteq> c" by (metis nth_mem)
    with t4 rne have "prefix sep r" by blast
    with r t3 less show False by simp
  qed
  from one[OF eq b2 b3 a4] one[OF eq[symmetric] a2 a3 b4]
  have "length tok = length tok'" by simp
  with eq show ?thesis by simp
qed

section \<open>Facts about the normalizer\<close>

lemma organizeAll_first_bad:
  assumes "\<forall>p\<in>set pre. length (str_split p (js ''='')) = 2"
    and "length (str_split param (js ''='')) \<noteq> 2"
  shows "organizeAll obj (pre @ param # post)
           = Inl (Error (js ''Invalid URI parameters: '' @ param))"
  using assms
proof (induction pre arbitrary: obj)
  case Nil
  then show ?case by (auto split: list.splits)
next
  case (Cons p pre)
  then have "length (str_split p (js ''='')) = 2" by simp
  then obtain k v where "str_split p (js ''='') = [k, v]"
    by (auto simp: length_Suc_conv numeral_2_eq_2)
  with Cons show ?case by simp
qed

lemma organizeAll_Inl:
  "organizeAll obj params = Inl e \<Longrightarrow>
     \<exists>param\<in>set params. length (str_split param (js ''='')) \<noteq> 2
        \<and> e = Error (js ''Invalid URI parameters: '' @ param)"
  by (induction params arbitrary: obj) (auto split: list.splits)

text \<open>
  The expression of the source and the pattern of claim C3 accept the same strings,
  but for those that have \<open>https://www\<close>, one code unit that is not a dot, and
  \<open>vinted.\<close> at their start; and what the pattern of the claim accepts, the
  expression accepts.
\<close>

lemma rests_head:
  "rests (Seq (Lit l) (Seq (Opt a) b)) s =
     (if prefix l s
      then concat (map (rests b) (rests a (drop (length l) s))) @ rests b (drop (length l) s)
      else [])"
  by simp

lemma rests_www_dot:
  assumes "prefix (js ''www.'') s"
  shows "rests (Seq (Lit (js ''www'')) Dot) s = rests (Lit (js ''www.'')) s"
proof -
  from assms obtain r where "s = js ''www.'' @ r" by (auto simp: prefix_def)
  then show ?thesis by (simp add: js_def lineTerminator_def)
qed

lemma rests_www_other:
  assumes "\<forall>c. prefix (js ''www'' @ c # l) s \<longrightarrow> c = 46"
  shows "concat (map (rests (Seq (Lit l) b)) (rests (Seq (Lit (js ''www'')) Dot) s))
       = concat (map (rests (Seq (Lit l) b)) (rests (Lit (js ''www.'')) s))"
proof (cases "prefix (js ''www.'') s")
  case True
  then show ?thesis by (simp only: rests_www_dot)
next
  case False
  show ?thesis
  proof (cases "prefix (js ''www'') s")
    case no: False
    then have "\<not> prefix (js ''www.'') s" by (auto simp: js_def prefix_def)
    with no show ?thesis by simp
  next
    case True
    then obtain t where t: "s = js ''www'' @ t" by (auto simp: prefix_def)
    show ?thesis
    proof (cases t)
      case Nil
      with t show ?thesis by (simp add: js_def)
    next
      case (Cons c cs)
      with t False have c: "c \<noteq> 46" by (auto simp: js_def)
      with assms have "\<not> prefix (js ''www'' @ c # l) s" by blast
      with t Cons have "\<not> prefix l cs" by simp
      with t Cons False show ?thesis by (simp add: js_def)
    qed
  qed
qed

lemma rests_prefixed:
  assumes "URI = h @ s"
  shows "rests (Seq (Lit h) (Seq (Opt a) b)) URI
       = concat (map (rests b) (rests a s)) @ rests b s"
  using assms by simp

lemma rests_optional_www:
  assumes "\<forall>c. prefix (h @ js ''www'' @ c # l) URI \<longrightarrow> c = 46"
  shows "rests (Seq (Lit h) (Seq (Opt (Seq (Lit (js ''www'')) Dot)) (Seq (Lit l) b))) URI
       = rests (Seq (Lit h) (Seq (Opt (Lit (js ''www.''))) (Seq (Lit l) b))) URI"
proof (cases "prefix h URI")
  case True
  then obtain s where s: "URI = h @ s" by (auto simp: prefix_def)
  with assms have "\<forall>c. prefix (js ''www'' @ c # l) s \<longrightarrow> c = 46" by simp
  from rests_www_other[OF this, of b] show ?thesis
    by (simp only: rests_prefixed[OF s])
next
  case False
  then show ?thesis by (simp only: rests_head if_False)
qed

lemma rests_literal_www:
  assumes "rests (Seq (Lit h) (Seq (Opt (Lit (js ''www.''))) b)) URI \<noteq> []"
  shows "rests (Seq (Lit h) (Seq (Opt (Seq (Lit (js ''www'')) Dot)) b)) URI \<noteq> []"
proof (cases "prefix h URI")
  case False
  with assms show ?thesis by simp
next
  case True
  then obtain s where s: "URI = h @ s" by (auto simp: prefix_def)
  have a: "concat (map (rests b) (rests (Lit (js ''www.'')) s)) @ rests b s \<noteq> []"
    using assms unfolding rests_prefixed[OF s] .
  have "concat (map (rests b) (rests (Seq (Lit (js ''www'')) Dot) s)) @ rests b s \<noteq> []"
  proof (cases "prefix (js ''www.'') s")
    case w: True
    show ?thesis unfolding rests_www_dot[OF w] using a .
  next
    case w: False
    then have e: "rests (Lit (js ''www.'')) s = []" by simp
    have "rests b s \<noteq> []" using a unfolding e by simp
    then show ?thesis by simp
  qed
  then show ?thesis unfolding rests_prefixed[OF s] .
qed

lemma claimed_agrees:
  assumes "\<forall>c. prefix (js ''https://www'' @ c # js ''vinted.'') URI \<longrightarrow> c = 46"
  shows "str_match URI vintedURI = str_match URI claimedURI"
proof -
  have "js ''https://www'' = js ''https://'' @ js ''www''" by (simp add: js_def)
  with assms have "\<forall>c. prefix (js ''https://'' @ js ''www'' @ c # js ''vinted.'') URI \<longrightarrow> c = 46"
    by simp
  from rests_optional_www[OF this] show ?thesis
    unfolding str_match_def vintedURI_def claimedURI_def by (simp only:)
qed

lemma claimed_matched:
  assumes "str_match URI claimedURI"
  shows "str_match URI vintedURI"
  using assms unfolding str_match_def vintedURI_def claimedURI_def
  by (rule rests_literal_www)

text \<open>\<open>decodeURI\<close> leaves every \<open>?\<close> (code unit 63) where it is and makes
  no new one: \<open>?\<close> is reserved, and an escape holds none.\<close>

lemma split_from_count: "length (split_from [c] acc s) = Suc (count_list s c)"
  by (induction s arbitrary: acc) auto

lemma parseHexOctet_count:
  "parseHexOctet s = Some (b, r) \<Longrightarrow> count_list s 63 = count_list r 63"
  by (cases s rule: parseHexOctet.cases)
     (auto simp: hexDigit_def split: if_splits option.splits)

lemma continuationOctets_count:
  "continuationOctets n s = Some (bs, r) \<Longrightarrow> count_list s 63 = count_list r 63"
proof (induction n arbitrary: s bs r)
  case 0
  then show ?case by simp
next
  case (Suc n)
  then show ?case
    by (fastforce split: option.splits dest: parseHexOctet_count)
qed

lemma utf8CodePoint_large: "utf8CodePoint bs = Some cp \<Longrightarrow> 128 \<le> cp"
  by (cases bs rule: utf8CodePoint.cases) (auto simp: Let_def split: if_splits)

lemma utf16Encode_count: "128 \<le> cp \<Longrightarrow> count_list (utf16Encode cp) 63 = 0"
  by (simp add: utf16Encode_def)

lemma Decode_count: "Decode s = Some r \<Longrightarrow> count_list r 63 = count_list s 63"
proof (induction s arbitrary: r rule: Decode.induct)
  case 1
  then show ?case by simp
next
  case (2 c cs)
  show ?case
  proof (cases "c = 37")
    case False
    with "2.prems" "2.IH"(1) show ?thesis by auto
  next
    case True
    with "2.prems" obtain b rest where p: "parseHexOctet (c # cs) = Some (b, rest)"
      by (auto split: option.splits)
    note cnt = parseHexOctet_count[OF p]
    from p True obtain h l where cs: "cs = h # l # rest"
      by (cases "c # cs" rule: parseHexOctet.cases) (auto split: if_splits option.splits)
    show ?thesis
    proof (cases "leadingOnes b = 0")
      case lo: True
      show ?thesis
      proof (cases "b \<in> set uriReserved")
        case res: True
        from "2.prems" True p lo res obtain r' where r': "Decode rest = Some r'"
          "r = take 3 (c # cs) @ r'" by auto
        define t where "t = take 3 (c # cs)"
        have split: "c # cs = t @ rest" using cs by (simp add: t_def)
        from "2.IH"(2)[of "(b, rest)" b rest r'] True p lo res r'(1)
        have "count_list r' 63 = count_list rest 63" by simp
        moreover have "count_list (c # cs) 63 = count_list t 63 + count_list rest 63"
          by (simp only: split count_list_append)
        moreover have "count_list r 63 = count_list t 63 + count_list r' 63"
          using r'(2) by (simp only: t_def[symmetric] count_list_append)
        ultimately show ?thesis by simp
      next
        case res: False
        from "2.prems" True p lo res obtain r' where r': "Decode rest = Some r'"
          "r = b # r'" by auto
        from res have "b \<noteq> 63" by (auto simp: uriReserved_def js_def)
        moreover from "2.IH"(3)[of "(b, rest)" b rest r'] True p lo res r'(1)
        have "count_list r' 63 = count_list rest 63" by simp
        ultimately show ?thesis using r'(2) cnt by simp
      qed
    next
      case lo: False
      with "2.prems" True p have lo2: "\<not> (leadingOnes b = 1 \<or> 4 < leadingOnes b)"
        by (auto split: if_splits)
      with "2.prems" True p lo obtain bs rest' where
        co: "continuationOctets (leadingOnes b - 1) rest = Some (bs, rest')"
        by (auto split: option.splits)
      with "2.prems" True p lo lo2 obtain cp where cp: "utf8CodePoint (b # bs) = Some cp"
        by (auto split: option.splits)
      with "2.prems" True p lo lo2 co obtain r' where r': "Decode rest' = Some r'"
        "r = utf16Encode cp @ r'" by auto
      from "2.IH"(4)[of "(b, rest)" b rest "(bs, rest')" bs rest' cp r'] True p lo lo2 co cp r'(1)
      have "count_list r' 63 = count_list rest' 63" by simp
      with r'(2) utf16Encode_count[OF utf8CodePoint_large[OF cp]]
        continuationOctets_count[OF co] cnt
      show ?thesis by simp
    qed
  qed
qed

lemma decodeURI_split_question:
  assumes "decodeURI url = Inr URI"
  shows "length (str_split URI (js ''?'')) = length (str_split url (js ''?''))"
proof -
  from assms have "Decode url = Some URI" by (auto simp: decodeURI_def split: option.splits)
  from Decode_count[OF this] show ?thesis
    by (simp add: str_split_def js_def split_from_count)
qed

text \<open>
  The method and the value: the first \<open>forEach\<close> builds the object of
  \<open>organizeAll\<close>, the second the string of \<open>finalParams\<close>, and neither
  touches the scraper or the world.
\<close>

lemma forEach_organizeParam:
  "\<exists>obj. forEach organizeParam params fr
       = (case organizeAll (frame_paramsObject fr) params of
            Inl e \<Rightarrow> (Inl e, fr\<lparr>frame_paramsObject := obj\<rparr>)
          | Inr obj' \<Rightarrow> (Inr (), fr\<lparr>frame_paramsObject := obj'\<rparr>))"
proof (induction params arbitrary: fr)
  case Nil
  show ?case by simp
next
  case (Cons param params)
  show ?case
  proof (cases "\<exists>key v. str_split param (js ''='') = [key, v]")
    case True
    then obtain key v where kv: "str_split param (js ''='') = [key, v]" by blast
    let ?fr1 = "fr\<lparr>frame_paramsObject := organize (frame_paramsObject fr) key v\<rparr>"
    from Cons.IH[of ?fr1] obtain obj where
      "forEach organizeParam params ?fr1
       = (case organizeAll (frame_paramsObject ?fr1) params of
            Inl e \<Rightarrow> (Inl e, ?fr1\<lparr>frame_paramsObject := obj\<rparr>)
          | Inr obj' \<Rightarrow> (Inr (), ?fr1\<lparr>frame_paramsObject := obj'\<rparr>))" by blast
    moreover have "organizeParam param fr = (Inr (), ?fr1)"
      using kv by (simp add: organizeParam_def)
    ultimately show ?thesis using kv
      by (intro exI[of _ obj]) (simp split: sum.splits)
  next
    case False
    then have "organizeParam param fr
        = (Inl (Error (js ''Invalid URI parameters: '' @ param)), fr)"
      by (auto simp: organizeParam_def split: list.splits)
    then have "forEach organizeParam (param # params) fr
        = (Inl (Error (js ''Invalid URI parameters: '' @ param)), fr)"
      by simp
    moreover from False have "organizeAll (frame_paramsObject fr) (param # params)
        = Inl (Error (js ''Invalid URI parameters: '' @ param))"
      by (auto split: list.splits)
    ultimately show ?thesis
      by (intro exI[of _ "frame_paramsObject fr"]) simp
  qed
qed

lemma forEach_formatParam:
  "forEach formatParam keys fr
     = (Inr (), fr\<lparr>frame_finalParams :=
                     finalParams (frame_paramsObject fr) (frame_finalParams fr) keys\<rparr>)"
proof (induction keys arbitrary: fr)
  case Nil
  show ?case by simp
next
  case (Cons key keys)
  obtain fr1 where step: "formatParam key fr = (Inr (), fr1)"
    and obj: "frame_paramsObject fr1 = frame_paramsObject fr"
    and fin: "frame_finalParams fr1 =
        (if key \<noteq> js ''time'' then
           (if frame_finalParams fr \<noteq> []
            then frame_finalParams fr @ js ''&'' @ key @ js ''=''
                 @ the (map_of (frame_paramsObject fr) key)
            else frame_finalParams fr @ key @ js ''=''
                 @ the (map_of (frame_paramsObject fr) key))
         else frame_finalParams fr)"
    and rest: "fr1\<lparr>frame_finalParams := x\<rparr> = fr\<lparr>frame_finalParams := x\<rparr>" for x
    by (simp add: formatParam_def)
  show ?case
    by (simp only: forEach.simps step prod.case sum.case Cons.IH obj fin rest finalParams.simps)
qed

lemma getQueryParameters_method_value:
  "getQueryParameters_method this w url = (getQueryParameters url, this, w)"
proof (cases "decodeURI url")
  case (Inl e)
  then show ?thesis by (simp add: getQueryParameters_method_def getQueryParameters_def)
next
  case (Inr URI)
  show ?thesis
  proof (cases "str_match URI vintedURI")
    case False
    with Inr show ?thesis by (simp add: getQueryParameters_method_def getQueryParameters_def)
  next
    case True
    show ?thesis
    proof (cases "\<exists>base query. str_split URI (js ''?'') = [base, query]")
      case False
      with Inr True show ?thesis
        by (auto simp: getQueryParameters_method_def getQueryParameters_def split: list.splits)
    next
      case two: True
      then obtain base query where q: "str_split URI (js ''?'') = [base, query]" by blast
      define params where "params = str_split
        (str_replaceAll
           (str_replaceAll
              (str_replaceAll query (js ''catalog[]'') (js ''catalog_id[]''))
              (js ''status[]'') (js ''status_id[]''))
           (js ''[]'') (js ''s''))
        (js ''&'')"
      let ?fr0 = "\<lparr>frame_this = this, frame_world = w,
                     frame_paramsObject = [], frame_finalParams = []\<rparr>"
      from forEach_organizeParam[of params ?fr0] obtain obj where
        o: "forEach organizeParam params ?fr0
           = (case organizeAll [] params of
                Inl e \<Rightarrow> (Inl e, ?fr0\<lparr>frame_paramsObject := obj\<rparr>)
              | Inr obj' \<Rightarrow> (Inr (), ?fr0\<lparr>frame_paramsObject := obj'\<rparr>))" by auto
      have m: "getQueryParameters_method this w url =
          (case forEach organizeParam params ?fr0 of
             (Inl e, fr1) \<Rightarrow> (Inl e, frame_this fr1, frame_world fr1)
           | (Inr _, fr1) \<Rightarrow>
               (case forEach formatParam (Object_keys (frame_paramsObject fr1)) fr1 of
                  (Inl e, fr2) \<Rightarrow> (Inl e, frame_this fr2, frame_world fr2)
                | (Inr _, fr2) \<Rightarrow>
                    (Inr (frame_finalParams fr2), frame_this fr2, frame_world fr2)))"
        using Inr True q by (simp add: getQueryParameters_method_def params_def)
      have p: "getQueryParameters url =
          (case organizeAll [] params of
             Inl e \<Rightarrow> Inl e
           | Inr paramsObject \<Rightarrow> Inr (finalParams paramsObject [] (Object_keys paramsObject)))"
        using Inr True q by (simp add: getQueryParameters_def params_def)
      show ?thesis
        unfolding m p o by (simp add: forEach_formatParam split: sum.splits)
    qed
  qed
qed

lemmas normalize_defs =
  getQueryParameters_def decodeURI_def js_def vintedURI_def str_match_def
  str_split_def organize_def assign_def Object_keys_def arrayIndex_def inherited_def
  nativeFunctions_def lineTerminator_def whiteSpace_def uriReserved_def hexDigit_def leadingOnes_def

text \<open>The two runs of the specification.\<close>

lemma getQueryParameters_catalog_example:
  "getQueryParameters (js ''https://www.vinted.be/catalog?catalog[]=1&catalog[]=2&time=999'')
     = Inr (js ''catalog_ids=1,2'')"
  by (simp add: normalize_defs)

lemma getQueryParameters_status_example:
  "getQueryParameters (js ''https://www.vinted.be/catalog?status[]=1&brand[]=5'')
     = Inr (js ''status_ids=1&brands=5'')"
  by (simp add: normalize_defs)

text \<open>What the truth test of the merge does to the keys that every object inherits,
  and what the unescaped dot of the pattern lets through.\<close>

lemma getQueryParameters_inherited_key:
  \<open>getQueryParameters (js ''https://www.vinted.be/catalog?constructor=1'')
     = Inr (js ''constructor=function Object() { [native code] },1'')\<close>
  by (simp add: normalize_defs)

lemma getQueryParameters_unescaped_dot:
  "getQueryParameters (js ''https://wwwxvinted.be/catalog?x=1'') = Inr (js ''x=1'')"
  by (simp add: normalize_defs)

section \<open>Facts about the request pipeline\<close>

lemma body_attempt:
  "(case attempt P this w url of
      Inl y \<Rightarrow> Some y
    | Inr (this2, w2) \<Rightarrow> f P this2 w2 url) =
   (case obtainText P this w url of
        (Inl e, this1, w1) \<Rightarrow> Some (Inl e, this1, w1)
      | (Inr (proxy, text), this1, w1) \<Rightarrow>
          if str_includes text (js ''Request rate limit exceeded'')
          then Some (Inl (Error (js ''Request rate limit exceeded'')), this1, w1)
          else if str_includes text (js ''<'')
          then Some (Inl (Error (js ''Bad Gateway'')), this1, w1)
          else
            (case JSON_parse P text of
               None \<Rightarrow> Some (Inl SyntaxError, this1, w1)
             | Some parsed \<Rightarrow>
            (case (if proxy \<noteq> [] then set_proxy parsed proxy else Inr parsed) of
               Inl e \<Rightarrow> Some (Inl e, this1, w1)
             | Inr json \<Rightarrow>
            (case message_code json of
               Inl e \<Rightarrow> Some (Inl e, this1, w1)
             | Inr code \<Rightarrow>
                 if code = Some (JString (js ''invalid_authentication_token''))
                 then
                   (case fetchSessionCookie P this1 w1 of
                      (Inl e, this2, w2) \<Rightarrow> Some (Inl e, this2, w2)
                    | (Inr _, this2, w2) \<Rightarrow> f P this2 w2 url)
                 else if code = Some (JString (js ''not_found''))
                 then Some (Inl (Error (js ''not_found'')), this1, w1)
                 else Some (Inr json, this1, w1)))))"
proof -
  let ?h = "\<lambda>v. case v of Inl y \<Rightarrow> Some y | Inr (this2, w2) \<Rightarrow> f P this2 w2 url"
  show ?thesis
    unfolding attempt_def
    by (simp add: prod.case_distrib[of ?h] sum.case_distrib[of ?h] option.case_distrib[of ?h]
          if_distrib[of ?h] unit.case_distrib[of ?h]
        cong: prod.case_cong sum.case_cong option.case_cong if_cong)
qed

lemma request_attempt:
  "request P this w url =
     (case attempt P this w url of
        Inl y \<Rightarrow> Some y
      | Inr (this2, w2) \<Rightarrow> request P this2 w2 url)"
  by (subst request.simps) (simp only: body_attempt)

lemma request_stale_rounds:
  "stale_rounds k P url s = Some s' \<Longrightarrow>
     request P (fst s) (snd s) url = request P (fst s') (snd s') url"
proof (induction k arbitrary: s)
  case 0
  then show ?case by simp
next
  case (Suc k)
  then obtain s1 where a: "attempt P (fst s) (snd s) url = Inr s1"
    and rest: "stale_rounds k P url s1 = Some s'"
    by (auto split: sum.splits)
  from a have "request P (fst s) (snd s) url = request P (fst s1) (snd s1) url"
    by (simp add: request_attempt[of P "fst s"] split: prod.splits)
  with Suc.IH[OF rest] show ?case by simp
qed

lemma request_induct [consumes 1, case_names final retry]:
  assumes run: "request P this w url = Some y"
    and final: "\<And>this w y. attempt P this w url = Inl y \<Longrightarrow> Q this w y"
    and retry: "\<And>this w this2 w2 y.
        attempt P this w url = Inr (this2, w2) \<Longrightarrow> Q this2 w2 y \<Longrightarrow> Q this w y"
  shows "Q this w y"
proof -
  have "(case (((P, this), w), url) of (((P', this'), w'), url') \<Rightarrow>
            \<lambda>y. P' = P \<longrightarrow> url' = url \<longrightarrow> Q this' w' y) y"
  proof (rule request.raw_induct[OF _ run], unfold body_attempt[symmetric])
    fix f P' this' w' url' y'
    assume IH: "\<And>a b c d z. f a b c d = Some z \<Longrightarrow>
          (case (((a, b), c), d) of (((P', this'), w'), url') \<Rightarrow>
            \<lambda>y. P' = P \<longrightarrow> url' = url \<longrightarrow> Q this' w' y) z"
      and eq: "(case attempt P' this' w' url' of
                 Inl z \<Rightarrow> Some z
               | Inr (this2, w2) \<Rightarrow> f P' this2 w2 url') = Some y'"
    show "(case (((P', this'), w'), url') of (((P', this'), w'), url') \<Rightarrow>
            \<lambda>y. P' = P \<longrightarrow> url' = url \<longrightarrow> Q this' w' y) y'"
    proof (cases "attempt P' this' w' url'")
      case (Inl z)
      have "Q this' w' y'" if "P' = P" "url' = url"
      proof -
        from Inl eq that have "attempt P this' w' url = Inl y'" by simp
        then show ?thesis by (rule final)
      qed
      then show ?thesis by simp
    next
      case (Inr s)
      obtain this2 w2 where s: "s = (this2, w2)" by (cases s)
      with Inr eq have "f P' this2 w2 url' = Some y'" by simp
      from IH[OF this] have ih: "P' = P \<longrightarrow> url' = url \<longrightarrow> Q this2 w2 y'" by simp
      have "Q this' w' y'" if "P' = P" "url' = url"
      proof -
        from Inr s that have "attempt P this' w' url = Inr (this2, w2)" by simp
        moreover from ih that have "Q this2 w2 y'" by simp
        ultimately show ?thesis by (rule retry)
      qed
      then show ?thesis by simp
    qed
  qed
  then show ?thesis by simp
qed


lemma takeProxy_cases:
  assumes "takeProxy P this w = (r, w')"
  obtains (none) "proxyHandler this = None" "r = Inr []" "w' = w"
  | (threw) px x where "proxyHandler this = Some px" "getProxy P px w = Inl x"
      "r = Inl (External x)" "w' = w @ [ProxyTaken (Inl x)]"
  | (taken) px proxy where "proxyHandler this = Some px" "getProxy P px w = Inr proxy"
      "r = Inr proxy" "w' = w @ [ProxyTaken (Inr proxy)]"
  using assms by (auto simp: takeProxy_def split: option.splits sum.splits)

lemma awaitFetch_cases:
  assumes "awaitFetch P w req = (r, w')"
  obtains (rejected) x where "fetch P w req = Inl x" "r = Inl (External x)"
      "w' = w @ [Fetched req (Inl x)]"
  | (answered) res where "fetch P w req = Inr res" "r = Inr res"
      "w' = w @ [Fetched req (Inr res)]"
  using assms by (auto simp: awaitFetch_def split: sum.splits)

lemma agentFor_cases:
  assumes "agentFor P proxy = r"
  obtains (direct) "proxy = []" "r = Inr None"
  | (threw) x where "proxy \<noteq> []" "HttpsProxyAgent P proxy = Inl x" "r = Inl (External x)"
  | (agent) a where "proxy \<noteq> []" "HttpsProxyAgent P proxy = Inr a" "r = Inr (Some a)"
  using assms by (auto simp: agentFor_def split: sum.splits if_splits)

lemma classificationError_simps [simp]:
  "\<not> classificationError (External x)"
  "\<not> classificationError TypeError"
  "\<not> classificationError (Error (js ''Cannot fetch cookie''))"
  "classificationError (Error (js ''Request rate limit exceeded''))"
  "classificationError (Error (js ''Bad Gateway''))"
  "classificationError SyntaxError"
  "classificationError (Error (js ''not_found''))"
  by (simp_all add: classificationError_def js_def)

lemma cookieValue_Inl: "cookieValue header = Inl e \<Longrightarrow> e = TypeError"
  by (auto simp: cookieValue_def split: list.splits)

text \<open>What \<open>fetchSessionCookie\<close> leaves behind, by its outcome.\<close>

lemma fetchSessionCookie_cases:
  assumes "fetchSessionCookie P this w = (r, this', w')"
  obtains (failed) e where "r = Inl e" "this' = this" "\<not> classificationError e"
  | (stored) proxy w1 agent res header tok where
      "takeProxy P this w = (Inr proxy, w1)" "agentFor P proxy = Inr agent"
      "fetch P w1 \<lparr>req_url = js ''https://vinted.de'', req_cookie = None, req_agent = agent\<rparr>
         = Inr res"
      "w' = w1 @ [Fetched \<lparr>req_url = js ''https://vinted.de'', req_cookie = None,
                          req_agent = agent\<rparr> (Inr res)]"
      "set_cookie res = Some header" "cookieValue header = Inr tok"
      "r = Inr ()" "this' = this\<lparr>sessionCookie := Some tok\<rparr>"
proof -
  obtain rp w1 where tp: "takeProxy P this w = (rp, w1)" by (cases "takeProxy P this w")
  show ?thesis
  proof (cases rp)
    case (Inl e)
    with tp have "\<not> classificationError e" by (auto elim!: takeProxy_cases)
    with assms tp Inl show ?thesis by (intro failed[of e]) (auto simp: fetchSessionCookie_def)
  next
    case proxy: (Inr proxy)
    show ?thesis
    proof (cases "agentFor P proxy")
      case (Inl e)
      then have "\<not> classificationError e" by (auto elim!: agentFor_cases)
      with assms tp proxy Inl show ?thesis
        by (intro failed[of e]) (auto simp: fetchSessionCookie_def)
    next
      case agent: (Inr agent)
      let ?req = "\<lparr>req_url = js ''https://vinted.de'', req_cookie = None, req_agent = agent\<rparr>"
      obtain rf w2 where af: "awaitFetch P w1 ?req = (rf, w2)"
        by (cases "awaitFetch P w1 ?req")
      from assms tp proxy agent af have unfold: "(r, this', w') =
          (case rf of Inl e \<Rightarrow> (Inl e, this, w2)
           | Inr res \<Rightarrow>
               (case set_cookie res of
                  None \<Rightarrow> (Inl (Error (js ''Cannot fetch cookie'')), this, w2)
                | Some header \<Rightarrow>
                    if \<not> str_includes header (js ''_vinted_fr_session'')
                    then (Inl (Error (js ''Cannot fetch cookie'')), this, w2)
                    else (case cookieValue header of
                            Inl e \<Rightarrow> (Inl e, this, w2)
                          | Inr v \<Rightarrow> (Inr (), this\<lparr>sessionCookie := Some v\<rparr>, w2))))"
        by (simp add: fetchSessionCookie_def)
      from af show ?thesis
      proof (cases rule: awaitFetch_cases)
        case (rejected x)
        with unfold show ?thesis by (intro failed[of "External x"]) auto
      next
        case (answered res)
        show ?thesis
        proof (cases "set_cookie res")
          case None
          with unfold answered show ?thesis
            by (intro failed[of "Error (js ''Cannot fetch cookie'')"]) auto
        next
          case (Some header)
          show ?thesis
          proof (cases "str_includes header (js ''_vinted_fr_session'')")
            case False
            with unfold answered Some show ?thesis
              by (intro failed[of "Error (js ''Cannot fetch cookie'')"]) auto
          next
            case True
            show ?thesis
            proof (cases "cookieValue header")
              case (Inl e)
              with unfold answered Some True cookieValue_Inl[OF Inl] show ?thesis
                by (intro failed[of TypeError]) auto
            next
              case (Inr tok)
              with unfold answered Some True tp proxy agent show ?thesis
                by (intro stored[of proxy w1 agent res header tok]) auto
            qed
          qed
        qed
      qed
    qed
  qed
qed


lemma cookieHeader_Some: "cookieHeader (Some tok) = js ''_vinted_fr_session='' @ tok"
  by (simp add: cookieHeader_def)

text \<open>What \<open>obtainText\<close> leaves behind, by its outcome.\<close>

lemma obtainText_cases:
  assumes "obtainText P this w url = (r, this1, w1)"
  obtains (failed) e where "r = Inl e" "\<not> classificationError e"
  | (got) proxy body w0 wp agent res tok where
      "r = Inr (proxy, body)"
      "takeProxy P this1 w0 = (Inr proxy, wp)" "agentFor P proxy = Inr agent"
      "w1 = wp @ [Fetched \<lparr>req_url = url,
                          req_cookie = Some (js ''_vinted_fr_session='' @ tok),
                          req_agent = agent\<rparr> (Inr res)]"
      "body_text res = Inr body" "sessionCookie this1 = Some tok"
      "proxyHandler this1 = proxyHandler this"
      "(this1 = this \<and> w0 = w \<and> tok \<noteq> [])
       \<or> (fetchSessionCookie P this w = (Inr (), this1, w0)
          \<and> (sessionCookie this = None \<or> sessionCookie this = Some []))"
proof -
  let ?ensure = "if sessionCookie this = None \<or> sessionCookie this = Some []
            then fetchSessionCookie P this w else (Inr (), this, w)"
  obtain re thisE w0 where en: "?ensure = (re, thisE, w0)" by (cases ?ensure)
  show ?thesis
  proof (cases re)
    case (Inl e)
    with en have "\<not> classificationError e"
      by (auto split: if_splits elim!: fetchSessionCookie_cases)
    moreover from assms en Inl have "r = Inl e" by (simp add: obtainText_def)
    ultimately show ?thesis by (rule failed[rotated])
  next
    case (Inr u)
    have held: "\<exists>tok. sessionCookie thisE = Some tok
        \<and> proxyHandler thisE = proxyHandler this
        \<and> ((thisE = this \<and> w0 = w \<and> tok \<noteq> [])
          \<or> (fetchSessionCookie P this w = (Inr (), thisE, w0)
            \<and> (sessionCookie this = None \<or> sessionCookie this = Some [])))"
    proof (cases "sessionCookie this = None \<or> sessionCookie this = Some []")
      case True
      with en Inr have f: "fetchSessionCookie P this w = (Inr (), thisE, w0)" by simp
      from f have "\<exists>tok. sessionCookie thisE = Some tok"
        and "proxyHandler thisE = proxyHandler this"
        by (auto elim!: fetchSessionCookie_cases)
      with f True show ?thesis by blast
    next
      case False
      with en show ?thesis by auto
    qed
    then obtain tok where tok: "sessionCookie thisE = Some tok"
      and ph: "proxyHandler thisE = proxyHandler this"
      and how: "(thisE = this \<and> w0 = w \<and> tok \<noteq> [])
          \<or> (fetchSessionCookie P this w = (Inr (), thisE, w0)
            \<and> (sessionCookie this = None \<or> sessionCookie this = Some []))" by blast
    obtain rp wp where tp: "takeProxy P thisE w0 = (rp, wp)" by (cases "takeProxy P thisE w0")
    show ?thesis
    proof (cases rp)
      case (Inl e)
      with tp have "\<not> classificationError e" by (auto elim!: takeProxy_cases)
      moreover from assms en Inr tp Inl have "r = Inl e" by (simp add: obtainText_def)
      ultimately show ?thesis by (rule failed[rotated])
    next
      case proxy: (Inr proxy)
      show ?thesis
      proof (cases "agentFor P proxy")
        case (Inl e)
        then have "\<not> classificationError e" by (auto elim!: agentFor_cases)
        moreover from assms en Inr tp proxy Inl have "r = Inl e" by (simp add: obtainText_def)
        ultimately show ?thesis by (rule failed[rotated])
      next
        case agent: (Inr agent)
        let ?req = "\<lparr>req_url = url, req_cookie = Some (js ''_vinted_fr_session='' @ tok),
                     req_agent = agent\<rparr>"
        obtain rf w3 where af: "awaitFetch P wp ?req = (rf, w3)"
          by (cases "awaitFetch P wp ?req")
        from assms en Inr tp proxy agent af tok have unfold: "(r, this1, w1) =
            (case rf of Inl e \<Rightarrow> (Inl e, thisE, w3)
             | Inr res \<Rightarrow>
                 (case body_text res of
                    Inl x \<Rightarrow> (Inl (External x), thisE, w3)
                  | Inr body \<Rightarrow> (Inr (proxy, body), thisE, w3)))"
          by (simp add: obtainText_def cookieHeader_Some)
        from af show ?thesis
        proof (cases rule: awaitFetch_cases)
          case (rejected x)
          with unfold show ?thesis by (intro failed[of "External x"]) auto
        next
          case (answered res)
          show ?thesis
          proof (cases "body_text res")
            case (Inl x)
            with unfold answered show ?thesis by (intro failed[of "External x"]) auto
          next
            case (Inr body)
            with unfold answered have "r = Inr (proxy, body)" "this1 = thisE" "w1 = w3"
              by auto
            with answered Inr tp proxy agent tok ph how show ?thesis
              by (intro got[of proxy body w0 wp agent tok res]) auto
          qed
        qed
      qed
    qed
  qed
qed

text \<open>One attempt that ends the call with a classification error.\<close>

lemma attempt_classificationError:
  assumes "attempt P this w url = Inl (Inl e, this', w')" and "classificationError e"
  shows "\<exists>w0 req res tok. w' = w0 @ [Fetched req (Inr res)] \<and> req_url req = url
           \<and> sessionCookie this' = Some tok
           \<and> req_cookie req = Some (js ''_vinted_fr_session='' @ tok)"
proof -
  obtain r this1 w1 where ot: "obtainText P this w url = (r, this1, w1)"
    by (cases "obtainText P this w url")
  from ot show ?thesis
  proof (cases rule: obtainText_cases)
    case (failed e')
    with assms ot show ?thesis by (simp add: attempt_def)
  next
    case (got proxy body w0 wp agent res tok)
    have same: "this' = this1 \<and> w' = w1"
    proof -
      obtain rc thisC wC where fsc: "fetchSessionCookie P this1 w1 = (rc, thisC, wC)"
        by (cases "fetchSessionCookie P this1 w1")
      have "rc = Inl e \<Longrightarrow> False"
        using fsc assms(2) by (auto elim!: fetchSessionCookie_cases)
      with assms ot got(1) fsc show ?thesis
        by (auto simp: attempt_def split: if_splits option.splits sum.splits)
    qed
    with got show ?thesis by auto
  qed
qed


lemma map_of_put_property:
  "map_of (put_property k v ps) k' = (if k' = k then Some v else map_of ps k')"
  by (induction ps) auto

lemma message_code_annotated:
  "map_of (put_property (js ''proxy'') v ps) (js ''message_code'')
     = map_of ps (js ''message_code'')"
  by (simp add: map_of_put_property) (simp add: js_def)

lemma sentinels_differ:
  "js ''invalid_authentication_token'' \<noteq> js ''not_found''"
  "js ''not_found'' \<noteq> js ''invalid_authentication_token''"
  by (simp_all add: js_def)

text \<open>One attempt whose response parses to an object.\<close>

lemma attempt_object:
  assumes "obtainText P this w url = (Inr (proxy, body), this1, w1)"
    and "\<not> str_includes body (js ''Request rate limit exceeded'')"
    and "\<not> str_includes body (js ''<'')"
    and "JSON_parse P body = Some (JObject ps)"
  shows "attempt P this w url =
     (if map_of ps (js ''message_code'') = Some (JString (js ''invalid_authentication_token''))
      then (case fetchSessionCookie P this1 w1 of
              (Inl e, this2, w2) \<Rightarrow> Inl (Inl e, this2, w2)
            | (Inr _, this2, w2) \<Rightarrow> Inr (this2, w2))
      else if map_of ps (js ''message_code'') = Some (JString (js ''not_found''))
      then Inl (Inl (Error (js ''not_found'')), this1, w1)
      else Inl (Inr (if proxy \<noteq> []
                     then JObject (put_property (js ''proxy'') (JString proxy) ps)
                     else JObject ps), this1, w1))"
proof (cases "proxy = []")
  case True
  with assms show ?thesis by (simp add: attempt_def sentinels_differ)
next
  case False
  with assms show ?thesis
    by (simp add: attempt_def message_code_annotated sentinels_differ)
qed











lemma staleForever_attempt:
  "\<exists>this2 w2. attempt staleForever this w url = Inr (this2, w2)"
proof -
  have cv: "cookieValue (js ''_vinted_fr_session=again; Path=/'') = Inr (js ''again'')"
    by (simp add: cookieValue_def str_split_def js_def)
  have inc: "str_includes (js ''_vinted_fr_session=again; Path=/'') (js ''_vinted_fr_session'')"
    by (simp add: js_def)
  have tp: "takeProxy staleForever t v = (Inr [], case proxyHandler t of None \<Rightarrow> v
      | Some px \<Rightarrow> v @ [ProxyTaken (Inr [])])" for t v
    by (simp add: takeProxy_def staleForever_def split: option.splits)
  have ag: "agentFor staleForever [] = Inr None" by (simp add: agentFor_def)
  have fsc: "\<exists>w'. fetchSessionCookie staleForever t v
      = (Inr (), t\<lparr>sessionCookie := Some (js ''again'')\<rparr>, w')" for t v
    by (simp add: fetchSessionCookie_def tp ag awaitFetch_def)
       (simp add: staleForever_def cookieResponse_def inc cv)
  have nz: "js ''again'' \<noteq> []" by (simp add: js_def)
  have body: "\<not> str_includes staleBody (js ''Request rate limit exceeded'')"
    "\<not> str_includes staleBody (js ''<'')"
    "JSON_parse staleForever staleBody
       = Some (JObject [(js ''message_code'', JString (js ''invalid_authentication_token''))])"
    by (simp_all add: staleBody_def rateLimitBody_def js_def staleForever_def demoBodies_def)
  have "\<exists>thisE w0. (if sessionCookie this = None \<or> sessionCookie this = Some []
            then fetchSessionCookie staleForever this w else (Inr (), this, w))
          = (Inr (), thisE, w0)"
    using fsc[of this w] by auto
  then obtain thisE w0 where ens: "(if sessionCookie this = None \<or> sessionCookie this = Some []
            then fetchSessionCookie staleForever this w else (Inr (), this, w))
          = (Inr (), thisE, w0)" by blast
  have ot: "\<exists>this1 w1. obtainText staleForever this w url = (Inr ([], staleBody), this1, w1)"
    unfolding obtainText_def ens
    by (simp add: tp ag awaitFetch_def) (simp add: staleForever_def bodyResponse_def)
  then obtain this1 w1 where ot1:
    "obtainText staleForever this w url = (Inr ([], staleBody), this1, w1)" by blast
  from fsc[of this1 w1] obtain w2 where
    "fetchSessionCookie staleForever this1 w1
        = (Inr (), this1\<lparr>sessionCookie := Some (js ''again'')\<rparr>, w2)" by blast
  with attempt_object[OF ot1 body] show ?thesis by simp
qed

lemma staleForever_never_returns: "request staleForever this w url = None"
proof (cases "request staleForever this w url")
  case None
  then show ?thesis .
next
  case (Some y)
  then have False
  proof (induction rule: request_induct)
    case (final this w y)
    with staleForever_attempt[of this w url] show ?case by auto
  next
    case (retry this w this2 w2 y)
    then show ?case by simp
  qed
  then show ?thesis ..
qed
section \<open>Facts about boostItem\<close>







section \<open>The claims\<close>

lemmas pipeline_defs =
  obtainText_def takeProxy_def agentFor_def awaitFetch_def scripted_def bodyResponse_def
  cookieResponse_def cookieHeader_def js_def staleBody_def itemBody_def rateLimitBody_def
  notFoundBody_def
  demoBodies_def fetchSessionCookie_def cookieValue_def str_split_def demoUrl_def
  heldToken_def refreshScript_def apiGet_def rootGet_def

subsection \<open>C1: two stale tokens in a row\<close>

text \<open>
  Claim C1, as amended. The source has no retry counter and no
  \<open>AuthenticationError\<close>: whenever the response of an attempt, the first or any
  later one, carries \<open>invalid_authentication_token\<close> and the session is fetched
  again, \<open>request\<close> calls itself with the same URL, and the call returns what that
  inner call returns. So after \<open>k\<close> stale tokens in a row, for every \<open>k\<close>, the
  call has fetched the session \<open>k\<close> times and goes on with attempt \<open>k + 1\<close>:
  nothing bounds the number of attempts.
\<close>

theorem request_retries_after_every_stale_token:
  "(\<forall>proxy body this1 w1 ps this2 w2.
      obtainText P this w url = (Inr (proxy, body), this1, w1) \<longrightarrow>
      \<not> str_includes body (js ''Request rate limit exceeded'') \<longrightarrow>
      \<not> str_includes body (js ''<'') \<longrightarrow>
      JSON_parse P body = Some (JObject ps) \<longrightarrow>
      map_of ps (js ''message_code'') = Some (JString (js ''invalid_authentication_token'')) \<longrightarrow>
      fetchSessionCookie P this1 w1 = (Inr (), this2, w2) \<longrightarrow>
        stale_rounds 1 P url (this, w) = Some (this2, w2)
      \<and> request P this w url = request P this2 w2 url)
   \<and> (\<forall>k this' w'.
      stale_rounds k P url (this, w) = Some (this', w') \<longrightarrow>
        request P this w url = request P this' w' url)"
proof (intro conjI allI impI)
  fix proxy body this1 w1 ps this2 w2
  assume h: "obtainText P this w url = (Inr (proxy, body), this1, w1)"
    "\<not> str_includes body (js ''Request rate limit exceeded'')"
    "\<not> str_includes body (js ''<'')"
    "JSON_parse P body = Some (JObject ps)"
    and stale: "map_of ps (js ''message_code'')
       = Some (JString (js ''invalid_authentication_token''))"
    and again: "fetchSessionCookie P this1 w1 = (Inr (), this2, w2)"
  from attempt_object[OF h] stale again
  have a: "attempt P this w url = Inr (this2, w2)" by simp
  then show "stale_rounds 1 P url (this, w) = Some (this2, w2)" by simp
  from a show "request P this w url = request P this2 w2 url"
    by (simp add: request_attempt[of P this])
next
  fix k this' w'
  assume "stale_rounds k P url (this, w) = Some (this', w')"
  from request_stale_rounds[OF this]
  show "request P this w url = request P this' w' url" by simp
qed

theorem request_retries_after_every_stale_token_witness:
  "obtainText (scripted refreshScript [] demoBodies) heldToken [] demoUrl
     = (Inr ([], staleBody), heldToken, [apiGet (js ''t0'') (bodyResponse staleBody)])
   \<and> fetchSessionCookie (scripted refreshScript [] demoBodies) heldToken
       [apiGet (js ''t0'') (bodyResponse staleBody)]
     = (Inr (), heldToken\<lparr>sessionCookie := Some (js ''t1'')\<rparr>,
        [apiGet (js ''t0'') (bodyResponse staleBody),
         rootGet (cookieResponse (js ''_vinted_fr_session=t1; Path=/''))])
   \<and> request (scripted refreshScript [] demoBodies) heldToken [] demoUrl
     = request (scripted refreshScript [] demoBodies)
         (heldToken\<lparr>sessionCookie := Some (js ''t1'')\<rparr>)
         [apiGet (js ''t0'') (bodyResponse staleBody),
          rootGet (cookieResponse (js ''_vinted_fr_session=t1; Path=/''))]
         demoUrl
   \<and> stale_rounds 2 (scripted refreshScript [] demoBodies) demoUrl (heldToken, [])
     = Some (heldToken\<lparr>sessionCookie := Some (js ''t2'')\<rparr>,
             [apiGet (js ''t0'') (bodyResponse staleBody),
              rootGet (cookieResponse (js ''_vinted_fr_session=t1; Path=/'')),
              apiGet (js ''t1'') (bodyResponse staleBody),
              rootGet (cookieResponse (js ''_vinted_fr_session=t2; Path=/''))])
   \<and> request (scripted refreshScript [] demoBodies) heldToken [] demoUrl
     = request (scripted refreshScript [] demoBodies)
         (heldToken\<lparr>sessionCookie := Some (js ''t2'')\<rparr>)
         [apiGet (js ''t0'') (bodyResponse staleBody),
          rootGet (cookieResponse (js ''_vinted_fr_session=t1; Path=/'')),
          apiGet (js ''t1'') (bodyResponse staleBody),
          rootGet (cookieResponse (js ''_vinted_fr_session=t2; Path=/''))]
         demoUrl"
proof -
  let ?P = "scripted refreshScript [] demoBodies"
  let ?w2 = "[apiGet (js ''t0'') (bodyResponse staleBody),
          rootGet (cookieResponse (js ''_vinted_fr_session=t1; Path=/''))]"
  let ?w4 = "[apiGet (js ''t0'') (bodyResponse staleBody),
              rootGet (cookieResponse (js ''_vinted_fr_session=t1; Path=/'')),
              apiGet (js ''t1'') (bodyResponse staleBody),
              rootGet (cookieResponse (js ''_vinted_fr_session=t2; Path=/''))]"
  have h1: "obtainText ?P heldToken [] demoUrl
     = (Inr ([], staleBody), heldToken, [apiGet (js ''t0'') (bodyResponse staleBody)])"
    by (simp add: pipeline_defs)
  have h2: "\<not> str_includes staleBody (js ''Request rate limit exceeded'')"
    and h3: "\<not> str_includes staleBody (js ''<'')"
    by (simp_all add: staleBody_def js_def)
  have h4: "JSON_parse ?P staleBody
     = Some (JObject [(js ''message_code'', JString (js ''invalid_authentication_token''))])"
    by (simp add: pipeline_defs)
  have h5: "map_of [(js ''message_code'', JString (js ''invalid_authentication_token''))]
        (js ''message_code'') = Some (JString (js ''invalid_authentication_token''))"
    by simp
  have h6: "fetchSessionCookie ?P heldToken [apiGet (js ''t0'') (bodyResponse staleBody)]
     = (Inr (), heldToken\<lparr>sessionCookie := Some (js ''t1'')\<rparr>, ?w2)"
    by (simp add: pipeline_defs)
  have h7: "stale_rounds 2 ?P demoUrl (heldToken, [])
     = Some (heldToken\<lparr>sessionCookie := Some (js ''t2'')\<rparr>, ?w4)"
  proof -
    have a1: "attempt ?P heldToken [] demoUrl
        = Inr (heldToken\<lparr>sessionCookie := Some (js ''t1'')\<rparr>, ?w2)"
      by (simp add: attempt_def pipeline_defs)
    have a2: "attempt ?P (heldToken\<lparr>sessionCookie := Some (js ''t1'')\<rparr>) ?w2 demoUrl
        = Inr (heldToken\<lparr>sessionCookie := Some (js ''t2'')\<rparr>, ?w4)"
      by (simp add: attempt_def pipeline_defs)
    show ?thesis
      by (simp add: numeral_2_eq_2 a1 a2)
  qed
  note every = request_retries_after_every_stale_token[of ?P heldToken "[]" demoUrl]
  from every[THEN conjunct1, rule_format, OF h1 h2 h3 h4 h5 h6]
  have a: "request ?P heldToken [] demoUrl
      = request ?P (heldToken\<lparr>sessionCookie := Some (js ''t1'')\<rparr>) ?w2 demoUrl"
    by (rule conjunct2)
  from every[THEN conjunct2, rule_format, OF h7]
  have b: "request ?P heldToken [] demoUrl
      = request ?P (heldToken\<lparr>sessionCookie := Some (js ''t2'')\<rparr>) ?w4 demoUrl" .
  show ?thesis
    by (intro conjI) (rule h1 h6 a h7 b)+
qed

text \<open>
  The claim as stated fails. Answered \<open>stale, stale, item\<close>, the call does not end
  after the second stale token: it fetches the session a second time, sends a third
  GET and returns the item. Answered with the stale token for ever, it never returns.
\<close>

theorem request_two_stale_tokens_counterexample:
  "request (scripted refreshScript [] demoBodies) heldToken [] demoUrl
     = Some (Inr (JObject [(js ''item'', JObject [(js ''id'', JString (js ''7''))])]),
             heldToken\<lparr>sessionCookie := Some (js ''t2'')\<rparr>,
             [apiGet (js ''t0'') (bodyResponse staleBody),
              rootGet (cookieResponse (js ''_vinted_fr_session=t1; Path=/'')),
              apiGet (js ''t1'') (bodyResponse staleBody),
              rootGet (cookieResponse (js ''_vinted_fr_session=t2; Path=/'')),
              apiGet (js ''t2'') (bodyResponse itemBody)])
   \<and> request staleForever heldToken [] demoUrl = None"
proof
  show "request (scripted refreshScript [] demoBodies) heldToken [] demoUrl
     = Some (Inr (JObject [(js ''item'', JObject [(js ''id'', JString (js ''7''))])]),
             heldToken\<lparr>sessionCookie := Some (js ''t2'')\<rparr>,
             [apiGet (js ''t0'') (bodyResponse staleBody),
              rootGet (cookieResponse (js ''_vinted_fr_session=t1; Path=/'')),
              apiGet (js ''t1'') (bodyResponse staleBody),
              rootGet (cookieResponse (js ''_vinted_fr_session=t2; Path=/'')),
              apiGet (js ''t2'') (bodyResponse itemBody)])"
    apply (subst request.simps)
    apply (simp add: pipeline_defs)
    apply (subst request.simps)
    apply (simp add: pipeline_defs)
    apply (subst request.simps)
    apply (simp add: pipeline_defs)
    done
  show "request staleForever heldToken [] demoUrl = None"
    by (rule staleForever_never_returns)
qed

subsection \<open>C2: the order of the classification\<close>

text \<open>
  Claim C2. Once an attempt has read the body of its response: a body that contains
  \<open>Request rate limit exceeded\<close> throws that error, whatever else it contains;
  otherwise a body that contains \<open><\<close> throws \<open>Bad Gateway\<close>; otherwise a body
  that \<open>JSON.parse\<close> rejects throws its \<open>SyntaxError\<close>; otherwise, for a parsed
  object, the stale-token sentinel is looked at first (the session is fetched again and
  the call starts over), then \<open>not_found\<close> (thrown), and every other object is
  returned, with the proxy stored in it when one was used. The same order holds for
  every parsed value on which the two property accesses do not throw; on an object
  they never throw, and the stored proxy does not change what \<open>message_code\<close> reads.
\<close>

theorem request_classification:
  assumes "obtainText P this w url = (Inr (proxy, body), this1, w1)"
  shows "(str_includes body (js ''Request rate limit exceeded'') \<longrightarrow>
            request P this w url
              = Some (Inl (Error (js ''Request rate limit exceeded'')), this1, w1))
       \<and> (\<not> str_includes body (js ''Request rate limit exceeded'') \<longrightarrow>
          str_includes body (js ''<'') \<longrightarrow>
            request P this w url = Some (Inl (Error (js ''Bad Gateway'')), this1, w1))
       \<and> (\<not> str_includes body (js ''Request rate limit exceeded'') \<longrightarrow>
          \<not> str_includes body (js ''<'') \<longrightarrow> JSON_parse P body = None \<longrightarrow>
            request P this w url = Some (Inl SyntaxError, this1, w1))
       \<and> (\<forall>parsed json code.
          \<not> str_includes body (js ''Request rate limit exceeded'') \<longrightarrow>
          \<not> str_includes body (js ''<'') \<longrightarrow> JSON_parse P body = Some parsed \<longrightarrow>
          (if proxy \<noteq> [] then set_proxy parsed proxy else Inr parsed) = Inr json \<longrightarrow>
          message_code json = Inr code \<longrightarrow>
            request P this w url =
              (if code = Some (JString (js ''invalid_authentication_token''))
               then (case fetchSessionCookie P this1 w1 of
                       (Inl e, this2, w2) \<Rightarrow> Some (Inl e, this2, w2)
                     | (Inr _, this2, w2) \<Rightarrow> request P this2 w2 url)
               else if code = Some (JString (js ''not_found''))
               then Some (Inl (Error (js ''not_found'')), this1, w1)
               else Some (Inr json, this1, w1)))
       \<and> (\<forall>ps. \<exists>json.
            (if proxy \<noteq> [] then set_proxy (JObject ps) proxy else Inr (JObject ps)) = Inr json
          \<and> message_code json = Inr (map_of ps (js ''message_code'')))"
proof (intro conjI allI impI)
  assume "str_includes body (js ''Request rate limit exceeded'')"
  with assms show "request P this w url
      = Some (Inl (Error (js ''Request rate limit exceeded'')), this1, w1)"
    by (simp add: request_attempt[of P this] attempt_def)
next
  assume "\<not> str_includes body (js ''Request rate limit exceeded'')" "str_includes body (js ''<'')"
  with assms show "request P this w url = Some (Inl (Error (js ''Bad Gateway'')), this1, w1)"
    by (simp add: request_attempt[of P this] attempt_def)
next
  assume "\<not> str_includes body (js ''Request rate limit exceeded'')"
    "\<not> str_includes body (js ''<'')" "JSON_parse P body = None"
  with assms show "request P this w url = Some (Inl SyntaxError, this1, w1)"
    by (simp add: request_attempt[of P this] attempt_def)
next
  fix parsed json code
  assume "\<not> str_includes body (js ''Request rate limit exceeded'')"
    "\<not> str_includes body (js ''<'')" "JSON_parse P body = Some parsed"
    "(if proxy \<noteq> [] then set_proxy parsed proxy else Inr parsed) = Inr json"
    "message_code json = Inr code"
  with assms show "request P this w url =
              (if code = Some (JString (js ''invalid_authentication_token''))
               then (case fetchSessionCookie P this1 w1 of
                       (Inl e, this2, w2) \<Rightarrow> Some (Inl e, this2, w2)
                     | (Inr _, this2, w2) \<Rightarrow> request P this2 w2 url)
               else if code = Some (JString (js ''not_found''))
               then Some (Inl (Error (js ''not_found'')), this1, w1)
               else Some (Inr json, this1, w1))"
    by (simp add: request_attempt[of P this] attempt_def sentinels_differ
          split: prod.splits sum.splits)
next
  fix ps
  show "\<exists>json.
            (if proxy \<noteq> [] then set_proxy (JObject ps) proxy else Inr (JObject ps)) = Inr json
          \<and> message_code json = Inr (map_of ps (js ''message_code''))"
    by (simp add: message_code_annotated)
qed

theorem request_classification_witness:
  "obtainText (scripted [bodyResponse rateLimitBody] [] demoBodies) heldToken [] demoUrl
     = (Inr ([], rateLimitBody), heldToken, [apiGet (js ''t0'') (bodyResponse rateLimitBody)])
   \<and> str_includes rateLimitBody (js ''Request rate limit exceeded'')
   \<and> str_includes rateLimitBody (js ''<'')
   \<and> JSON_parse (scripted [bodyResponse rateLimitBody] [] demoBodies) rateLimitBody \<noteq> None
   \<and> request (scripted [bodyResponse rateLimitBody] [] demoBodies) heldToken [] demoUrl
     = Some (Inl (Error (js ''Request rate limit exceeded'')), heldToken,
             [apiGet (js ''t0'') (bodyResponse rateLimitBody)])
   \<and> obtainText (scripted [bodyResponse itemBody] [] demoBodies) heldToken [] demoUrl
     = (Inr ([], itemBody), heldToken, [apiGet (js ''t0'') (bodyResponse itemBody)])
   \<and> request (scripted [bodyResponse itemBody] [] demoBodies) heldToken [] demoUrl
     = Some (Inr (JObject [(js ''item'', JObject [(js ''id'', JString (js ''7''))])]),
             heldToken, [apiGet (js ''t0'') (bodyResponse itemBody)])
   \<and> request (scripted [bodyResponse (js ''<html>502</html>'')] [] demoBodies)
       heldToken [] demoUrl
     = Some (Inl (Error (js ''Bad Gateway'')), heldToken,
             [apiGet (js ''t0'') (bodyResponse (js ''<html>502</html>''))])
   \<and> request (scripted [bodyResponse (js ''upstream timed out'')] [] demoBodies)
       heldToken [] demoUrl
     = Some (Inl SyntaxError, heldToken,
             [apiGet (js ''t0'') (bodyResponse (js ''upstream timed out''))])
   \<and> request (scripted [bodyResponse notFoundBody] [] demoBodies) heldToken [] demoUrl
     = Some (Inl (Error (js ''not_found'')), heldToken,
             [apiGet (js ''t0'') (bodyResponse notFoundBody)])"
proof -
  let ?P = "scripted [bodyResponse rateLimitBody] [] demoBodies"
  let ?Q = "scripted [bodyResponse itemBody] [] demoBodies"
  have h1: "obtainText ?P heldToken [] demoUrl
     = (Inr ([], rateLimitBody), heldToken, [apiGet (js ''t0'') (bodyResponse rateLimitBody)])"
    by (simp add: pipeline_defs)
  have h2: "str_includes rateLimitBody (js ''Request rate limit exceeded'')"
    and h3: "str_includes rateLimitBody (js ''<'')"
    by (simp_all add: rateLimitBody_def js_def)
  have h4: "JSON_parse ?P rateLimitBody \<noteq> None"
    by (simp add: pipeline_defs)
  have g1: "obtainText ?Q heldToken [] demoUrl
     = (Inr ([], itemBody), heldToken, [apiGet (js ''t0'') (bodyResponse itemBody)])"
    by (simp add: pipeline_defs)
  have g2: "\<not> str_includes itemBody (js ''Request rate limit exceeded'')"
    and g3: "\<not> str_includes itemBody (js ''<'')"
    by (simp_all add: itemBody_def js_def)
  have g4: "JSON_parse ?Q itemBody
     = Some (JObject [(js ''item'', JObject [(js ''id'', JString (js ''7''))])])"
    by (simp add: pipeline_defs)
  have g5: "map_of [(js ''item'', JObject [(js ''id'', JString (js ''7''))])] (js ''message_code'')
     = None"
    by (simp add: js_def)
  from request_classification[OF h1] h2
  have a: "request ?P heldToken [] demoUrl
     = Some (Inl (Error (js ''Request rate limit exceeded'')), heldToken,
             [apiGet (js ''t0'') (bodyResponse rateLimitBody)])"
    by blast
  have g6: "(if ([]::jsstring) \<noteq> []
              then set_proxy (JObject [(js ''item'', JObject [(js ''id'', JString (js ''7''))])]) []
              else Inr (JObject [(js ''item'', JObject [(js ''id'', JString (js ''7''))])]))
      = Inr (JObject [(js ''item'', JObject [(js ''id'', JString (js ''7''))])])"
    by simp
  have g7: "message_code (JObject [(js ''item'', JObject [(js ''id'', JString (js ''7''))])])
      = Inr None"
    by (simp add: js_def)
  from request_classification[OF g1] g2 g3 g4 g6 g7
  have "request ?Q heldToken [] demoUrl =
     (if None = Some (JString (js ''invalid_authentication_token''))
      then (case fetchSessionCookie ?Q heldToken [apiGet (js ''t0'') (bodyResponse itemBody)] of
              (Inl e, this2, w2) \<Rightarrow> Some (Inl e, this2, w2)
            | (Inr _, this2, w2) \<Rightarrow> request ?Q this2 w2 demoUrl)
      else if None = Some (JString (js ''not_found''))
      then Some (Inl (Error (js ''not_found'')), heldToken,
                 [apiGet (js ''t0'') (bodyResponse itemBody)])
      else Some (Inr (JObject [(js ''item'', JObject [(js ''id'', JString (js ''7''))])]),
                 heldToken, [apiGet (js ''t0'') (bodyResponse itemBody)]))"
    by blast
  then have b: "request ?Q heldToken [] demoUrl
     = Some (Inr (JObject [(js ''item'', JObject [(js ''id'', JString (js ''7''))])]),
             heldToken, [apiGet (js ''t0'') (bodyResponse itemBody)])"
    by simp
  have k1: "obtainText (scripted [bodyResponse (js ''<html>502</html>'')] [] demoBodies)
        heldToken [] demoUrl
     = (Inr ([], js ''<html>502</html>''), heldToken,
        [apiGet (js ''t0'') (bodyResponse (js ''<html>502</html>''))])"
    by (simp add: pipeline_defs)
  have k2: "\<not> str_includes (js ''<html>502</html>'') (js ''Request rate limit exceeded'')"
    and k3: "str_includes (js ''<html>502</html>'') (js ''<'')"
    by (simp_all add: js_def)
  from request_classification[OF k1] k2 k3
  have c: "request (scripted [bodyResponse (js ''<html>502</html>'')] [] demoBodies)
       heldToken [] demoUrl
     = Some (Inl (Error (js ''Bad Gateway'')), heldToken,
             [apiGet (js ''t0'') (bodyResponse (js ''<html>502</html>''))])"
    by blast
  have m1: "obtainText (scripted [bodyResponse (js ''upstream timed out'')] [] demoBodies)
        heldToken [] demoUrl
     = (Inr ([], js ''upstream timed out''), heldToken,
        [apiGet (js ''t0'') (bodyResponse (js ''upstream timed out''))])"
    by (simp add: pipeline_defs)
  have m2: "\<not> str_includes (js ''upstream timed out'') (js ''Request rate limit exceeded'')"
    and m3: "\<not> str_includes (js ''upstream timed out'') (js ''<'')"
    by (simp_all add: js_def)
  have m4: "JSON_parse (scripted [bodyResponse (js ''upstream timed out'')] [] demoBodies)
        (js ''upstream timed out'') = None"
    by (simp add: pipeline_defs)
  from request_classification[OF m1] m2 m3 m4
  have d: "request (scripted [bodyResponse (js ''upstream timed out'')] [] demoBodies)
       heldToken [] demoUrl
     = Some (Inl SyntaxError, heldToken,
             [apiGet (js ''t0'') (bodyResponse (js ''upstream timed out''))])"
    by blast
  let ?R = "scripted [bodyResponse notFoundBody] [] demoBodies"
  have n1: "obtainText ?R heldToken [] demoUrl
     = (Inr ([], notFoundBody), heldToken, [apiGet (js ''t0'') (bodyResponse notFoundBody)])"
    by (simp add: pipeline_defs)
  have n2: "\<not> str_includes notFoundBody (js ''Request rate limit exceeded'')"
    and n3: "\<not> str_includes notFoundBody (js ''<'')"
    by (simp_all add: notFoundBody_def js_def)
  have n4: "JSON_parse ?R notFoundBody
     = Some (JObject [(js ''message_code'', JString (js ''not_found''))])"
    by (simp add: pipeline_defs)
  have n5: "(if ([]::jsstring) \<noteq> []
              then set_proxy (JObject [(js ''message_code'', JString (js ''not_found''))]) []
              else Inr (JObject [(js ''message_code'', JString (js ''not_found''))]))
      = Inr (JObject [(js ''message_code'', JString (js ''not_found''))])"
    by simp
  have n6: "message_code (JObject [(js ''message_code'', JString (js ''not_found''))])
      = Inr (Some (JString (js ''not_found'')))"
    by simp
  from request_classification[OF n1] n2 n3 n4 n5 n6
  have "request ?R heldToken [] demoUrl =
     (if Some (JString (js ''not_found'')) = Some (JString (js ''invalid_authentication_token''))
      then (case fetchSessionCookie ?R heldToken [apiGet (js ''t0'') (bodyResponse notFoundBody)] of
              (Inl e, this2, w2) \<Rightarrow> Some (Inl e, this2, w2)
            | (Inr _, this2, w2) \<Rightarrow> request ?R this2 w2 demoUrl)
      else if Some (JString (js ''not_found'')) = Some (JString (js ''not_found''))
      then Some (Inl (Error (js ''not_found'')), heldToken,
                 [apiGet (js ''t0'') (bodyResponse notFoundBody)])
      else Some (Inr (JObject [(js ''message_code'', JString (js ''not_found''))]),
                 heldToken, [apiGet (js ''t0'') (bodyResponse notFoundBody)]))"
    by blast
  then have e: "request ?R heldToken [] demoUrl
     = Some (Inl (Error (js ''not_found'')), heldToken,
             [apiGet (js ''t0'') (bodyResponse notFoundBody)])"
    by (simp add: sentinels_differ)
  from h1 h2 h3 h4 a g1 b c d e show ?thesis by blast
qed

subsection \<open>C3: the inputs that the normalizer rejects\<close>

text \<open>
  Claim C3, as amended. The method decodes its input first: an input that
  \<open>decodeURI\<close> rejects throws \<open>URIError\<close>, and what the claim says holds of the
  inputs that \<open>decodeURI\<close> accepts, with the pattern read on the decoded URL. When
  the decoded URL does not match the pattern of the claim, the error is
  \<open>Invalid URI format\<close>; nothing is said here of a URL that starts with
  \<open>https://www\<close>, one code unit that is not a dot, and \<open>vinted.\<close>. When the
  input does not split into two pieces on \<open>?\<close>, or when a parameter (of the decoded
  query, after the substitutions) does not split into two pieces on \<open>=\<close>, the call
  throws an \<open>Error\<close>: \<open>Invalid URI format\<close>, or else
  \<open>Invalid URI parameters\<close>, respectively \<open>Invalid URI parameters:\<close> with the
  first such parameter, and it is the latter whenever the pattern is matched.
\<close>

theorem getQueryParameters_rejects:
  "(\<forall>e. decodeURI url = Inl e \<longrightarrow> e = URIError \<and> getQueryParameters url = Inl URIError)
   \<and> (\<forall>URI. decodeURI url = Inr URI \<longrightarrow> \<not> str_match URI claimedURI \<longrightarrow>
         (\<forall>c. prefix (js ''https://www'' @ c # js ''vinted.'') URI \<longrightarrow> c = 46) \<longrightarrow>
         getQueryParameters url = Inl (Error (js ''Invalid URI format'')))
   \<and> (\<forall>URI. decodeURI url = Inr URI \<longrightarrow> length (str_split url (js ''?'')) \<noteq> 2 \<longrightarrow>
         (getQueryParameters url = Inl (Error (js ''Invalid URI format''))
          \<or> getQueryParameters url = Inl (Error (js ''Invalid URI parameters'')))
         \<and> (str_match URI claimedURI \<longrightarrow>
              getQueryParameters url = Inl (Error (js ''Invalid URI parameters''))))
   \<and> (\<forall>URI base query pre param post.
         decodeURI url = Inr URI \<longrightarrow>
         str_split URI (js ''?'') = [base, query] \<longrightarrow>
         str_split
           (str_replaceAll
              (str_replaceAll
                 (str_replaceAll query (js ''catalog[]'') (js ''catalog_id[]''))
                 (js ''status[]'') (js ''status_id[]''))
              (js ''[]'') (js ''s''))
           (js ''&'') = pre @ param # post \<longrightarrow>
         (\<forall>p\<in>set pre. length (str_split p (js ''='')) = 2) \<longrightarrow>
         length (str_split param (js ''='')) \<noteq> 2 \<longrightarrow>
         (getQueryParameters url = Inl (Error (js ''Invalid URI format''))
          \<or> getQueryParameters url = Inl (Error (js ''Invalid URI parameters: '' @ param)))
         \<and> (str_match URI claimedURI \<longrightarrow>
              getQueryParameters url = Inl (Error (js ''Invalid URI parameters: '' @ param))))"
proof (intro conjI allI impI)
  fix e assume "decodeURI url = Inl e"
  then show "e = URIError" "getQueryParameters url = Inl URIError"
    by (auto simp: decodeURI_def getQueryParameters_def split: option.splits)
next
  fix URI
  assume d: "decodeURI url = Inr URI" and n: "\<not> str_match URI claimedURI"
    and w: "\<forall>c. prefix (js ''https://www'' @ c # js ''vinted.'') URI \<longrightarrow> c = 46"
  from claimed_agrees[OF w] n have "\<not> str_match URI vintedURI" by simp
  with d show "getQueryParameters url = Inl (Error (js ''Invalid URI format''))"
    by (simp add: getQueryParameters_def)
next
  fix URI
  assume d: "decodeURI url = Inr URI" and l: "length (str_split url (js ''?'')) \<noteq> 2"
  from l decodeURI_split_question[OF d]
  have l': "length (str_split URI (js ''?'')) \<noteq> 2" by simp
  with d show "getQueryParameters url = Inl (Error (js ''Invalid URI format''))
      \<or> getQueryParameters url = Inl (Error (js ''Invalid URI parameters''))"
    by (auto simp: getQueryParameters_def split: list.splits)
  assume "str_match URI claimedURI"
  then have "str_match URI vintedURI" by (rule claimed_matched)
  with d l' show "getQueryParameters url = Inl (Error (js ''Invalid URI parameters''))"
    by (auto simp: getQueryParameters_def split: list.splits)
next
  fix URI base query pre param post
  assume d: "decodeURI url = Inr URI"
    and s: "str_split URI (js ''?'') = [base, query]"
    and p: "str_split
           (str_replaceAll
              (str_replaceAll
                 (str_replaceAll query (js ''catalog[]'') (js ''catalog_id[]''))
                 (js ''status[]'') (js ''status_id[]''))
              (js ''[]'') (js ''s''))
           (js ''&'') = pre @ param # post"
    and ok: "\<forall>p\<in>set pre. length (str_split p (js ''='')) = 2"
    and bad: "length (str_split param (js ''='')) \<noteq> 2"
  have m: "str_match URI vintedURI \<Longrightarrow>
      getQueryParameters url = Inl (Error (js ''Invalid URI parameters: '' @ param))"
    using d s p by (simp add: getQueryParameters_def organizeAll_first_bad[OF ok bad])
  have f: "\<not> str_match URI vintedURI \<Longrightarrow>
      getQueryParameters url = Inl (Error (js ''Invalid URI format''))"
    using d by (simp add: getQueryParameters_def)
  from m f show "getQueryParameters url = Inl (Error (js ''Invalid URI format''))
      \<or> getQueryParameters url = Inl (Error (js ''Invalid URI parameters: '' @ param))"
    by blast
  assume "str_match URI claimedURI"
  then have "str_match URI vintedURI" by (rule claimed_matched)
  then show "getQueryParameters url = Inl (Error (js ''Invalid URI parameters: '' @ param))"
    by (rule m)
qed

theorem getQueryParameters_rejects_witness:
  "getQueryParameters (js ''https://example.com/%41%'') = Inl URIError
   \<and> \<not> str_match (js ''https://example.com/catalog?x=1'') claimedURI
   \<and> getQueryParameters (js ''https://example.com/catalog?x=1'')
     = Inl (Error (js ''Invalid URI format''))
   \<and> str_match (js ''https://www.vinted.be/catalog?x=1?y=2'') claimedURI
   \<and> length (str_split (js ''https://www.vinted.be/catalog?x=1?y=2'') (js ''?'')) \<noteq> 2
   \<and> getQueryParameters (js ''https://www.vinted.be/catalog?x=1?y=2'')
     = Inl (Error (js ''Invalid URI parameters''))
   \<and> str_match (js ''https://www.vinted.be/catalog?x=1&y'') claimedURI
   \<and> length (str_split (js ''y'') (js ''='')) \<noteq> 2
   \<and> getQueryParameters (js ''https://www.vinted.be/catalog?x=1&y'')
     = Inl (Error (js ''Invalid URI parameters: y''))"
proof -
  let ?u0 = "js ''https://example.com/%41%''"
  let ?u1 = "js ''https://example.com/catalog?x=1''"
  let ?u2 = "js ''https://www.vinted.be/catalog?x=1?y=2''"
  let ?u3 = "js ''https://www.vinted.be/catalog?x=1&y''"
  have e1: "decodeURI ?u0 = Inl URIError"
    by (simp add: normalize_defs)
  have h1: "decodeURI ?u1 = Inr ?u1"
    by (simp add: normalize_defs)
  have h2: "\<not> str_match ?u1 claimedURI"
    by (simp add: normalize_defs claimedURI_def)
  have h3: "\<forall>c. prefix (js ''https://www'' @ c # js ''vinted.'') ?u1 \<longrightarrow> c = 46"
    by (simp add: js_def)
  have k1: "decodeURI ?u2 = Inr ?u2"
    by (simp add: normalize_defs)
  have k2: "str_match ?u2 claimedURI"
    by (simp add: normalize_defs claimedURI_def)
  have k3: "length (str_split ?u2 (js ''?'')) \<noteq> 2"
    by (simp add: str_split_def js_def)
  have g1: "decodeURI ?u3 = Inr ?u3"
    by (simp add: normalize_defs)
  have g2: "str_match ?u3 claimedURI"
    by (simp add: normalize_defs claimedURI_def)
  have g3: "str_split ?u3 (js ''?'') = [js ''https://www.vinted.be/catalog'', js ''x=1&y'']"
    by (simp add: str_split_def js_def)
  have g4: "str_split
           (str_replaceAll
              (str_replaceAll
                 (str_replaceAll (js ''x=1&y'') (js ''catalog[]'') (js ''catalog_id[]''))
                 (js ''status[]'') (js ''status_id[]''))
              (js ''[]'') (js ''s''))
           (js ''&'') = [js ''x=1''] @ js ''y'' # []"
    by (simp add: str_split_def js_def)
  have g5: "\<forall>p\<in>set [js ''x=1'']. length (str_split p (js ''='')) = 2"
    by (simp add: str_split_def js_def)
  have g6: "length (str_split (js ''y'') (js ''='')) \<noteq> 2"
    by (simp add: str_split_def js_def)
  from getQueryParameters_rejects[of ?u0] e1
  have z: "getQueryParameters ?u0 = Inl URIError" by blast
  from getQueryParameters_rejects[of ?u1] h1 h2 h3
  have a: "getQueryParameters ?u1 = Inl (Error (js ''Invalid URI format''))" by blast
  from getQueryParameters_rejects[of ?u2] k1 k2 k3
  have b: "getQueryParameters ?u2 = Inl (Error (js ''Invalid URI parameters''))" by blast
  from getQueryParameters_rejects[of ?u3]
  have "decodeURI ?u3 = Inr ?u3 \<longrightarrow>
        str_split ?u3 (js ''?'') = [js ''https://www.vinted.be/catalog'', js ''x=1&y''] \<longrightarrow>
        str_split
           (str_replaceAll
              (str_replaceAll
                 (str_replaceAll (js ''x=1&y'') (js ''catalog[]'') (js ''catalog_id[]''))
                 (js ''status[]'') (js ''status_id[]''))
              (js ''[]'') (js ''s''))
           (js ''&'') = [js ''x=1''] @ js ''y'' # [] \<longrightarrow>
        (\<forall>p\<in>set [js ''x=1'']. length (str_split p (js ''='')) = 2) \<longrightarrow>
        length (str_split (js ''y'') (js ''='')) \<noteq> 2 \<longrightarrow>
        str_match ?u3 claimedURI \<longrightarrow>
        getQueryParameters ?u3 = Inl (Error (js ''Invalid URI parameters: '' @ js ''y''))"
    by blast
  with g1 g2 g3 g4 g5 g6
  have "getQueryParameters ?u3 = Inl (Error (js ''Invalid URI parameters: '' @ js ''y''))"
    by blast
  then have c: "getQueryParameters ?u3 = Inl (Error (js ''Invalid URI parameters: y''))"
    by (simp add: js_def)
  from z h2 a k2 k3 b g2 g6 c show ?thesis by blast
qed

text \<open>
  The claim as stated fails: the first input does not match the pattern, and the error
  is the \<open>URIError\<close> of \<open>decodeURI\<close>, not \<open>Invalid URI format\<close>; the second
  does not match the pattern as it is written, only once decoded, and is accepted.
\<close>

theorem getQueryParameters_URIError_counterexample:
  "\<not> str_match (js ''https://example.com/%'') claimedURI
   \<and> getQueryParameters (js ''https://example.com/%'') = Inl URIError
   \<and> getQueryParameters (js ''https://example.com/%'') \<noteq> Inl (Error (js ''Invalid URI format''))
   \<and> \<not> str_match (js ''https://www.vinted.be/cat%61log?x=1'') claimedURI
   \<and> getQueryParameters (js ''https://www.vinted.be/cat%61log?x=1'') = Inr (js ''x=1'')"
  by (simp add: normalize_defs claimedURI_def)

subsection \<open>C4: merging the values of a repeated key\<close>

text \<open>
  Claim C4. The two runs of the claim give what it says
  (\<open>getQueryParameters_catalog_example\<close>, \<open>getQueryParameters_status_example\<close>
  above). The merge itself tests \<open>paramsObject[key]\<close> for truth, not for presence:
  a key whose value so far is the empty string takes the next value in its place, with
  no comma, where the claim joins the two values with a comma (\<open>brands=,5\<close>).
\<close>

theorem getQueryParameters_empty_value_not_merged:
  "getQueryParameters (js ''https://www.vinted.be/catalog?brand[]=&brand[]=5'')
     = Inr (js ''brands=5'')"
  by (simp add: normalize_defs)

subsection \<open>C5: a stale token, then a payload\<close>

text \<open>
  Claim C5. When the first response carries the stale-token sentinel, the session is
  fetched again and the second response is an object with neither sentinel, the call
  returns that object. Between the two attempts \<open>fetchSessionCookie\<close> has sent its
  GET to the site root, whatever token was held, and has put the value of the cookie of
  that response in place of the held token; the GET of the second attempt carries the
  token held at that moment, which is that value (when the value is empty, the second
  attempt fetches the session once more before its GET).
\<close>

theorem request_retry_after_refresh:
  assumes "obtainText P this w url = (Inr (proxy1, body1), this1, w1)"
    and "\<not> str_includes body1 (js ''Request rate limit exceeded'')"
    and "\<not> str_includes body1 (js ''<'')"
    and "JSON_parse P body1 = Some (JObject ps1)"
    and "map_of ps1 (js ''message_code'') = Some (JString (js ''invalid_authentication_token''))"
    and "fetchSessionCookie P this1 w1 = (Inr (), this2, w2)"
    and "obtainText P this2 w2 url = (Inr (proxy2, body2), this3, w3)"
    and "\<not> str_includes body2 (js ''Request rate limit exceeded'')"
    and "\<not> str_includes body2 (js ''<'')"
    and "JSON_parse P body2 = Some (JObject ps2)"
    and "map_of ps2 (js ''message_code'') \<noteq> Some (JString (js ''invalid_authentication_token''))"
    and "map_of ps2 (js ''message_code'') \<noteq> Some (JString (js ''not_found''))"
  shows "request P this w url
           = Some (Inr (if proxy2 \<noteq> []
                        then JObject (put_property (js ''proxy'') (JString proxy2) ps2)
                        else JObject ps2), this3, w3)
       \<and> (\<exists>v agent res header tok tok'.
             w2 = v @ [Fetched \<lparr>req_url = js ''https://vinted.de'', req_cookie = None,
                               req_agent = agent\<rparr> (Inr res)]
           \<and> set_cookie res = Some header \<and> cookieValue header = Inr tok
           \<and> this2 = this1\<lparr>sessionCookie := Some tok\<rparr>
           \<and> sessionCookie this3 = Some tok'
           \<and> (\<exists>v' agent' res'.
                 w3 = v' @ [Fetched \<lparr>req_url = url,
                               req_cookie = Some (js ''_vinted_fr_session='' @ tok'),
                               req_agent = agent'\<rparr> (Inr res')])
           \<and> (tok \<noteq> [] \<longrightarrow> this3 = this2 \<and> tok' = tok)
           \<and> (tok = [] \<longrightarrow> (\<exists>w0. fetchSessionCookie P this2 w2 = (Inr (), this3, w0))))"
proof
  have "request P this w url = request P this2 w2 url"
    using attempt_object[OF assms(1-4)] assms(5,6) by (simp add: request_attempt[of P this])
  also have "\<dots> = Some (Inr (if proxy2 \<noteq> []
                        then JObject (put_property (js ''proxy'') (JString proxy2) ps2)
                        else JObject ps2), this3, w3)"
    using attempt_object[OF assms(7-10)] assms(11,12) by (simp add: request_attempt[of P this2])
  finally show "request P this w url
           = Some (Inr (if proxy2 \<noteq> []
                        then JObject (put_property (js ''proxy'') (JString proxy2) ps2)
                        else JObject ps2), this3, w3)" .
next
  from assms(6) obtain proxy wp agent res header tok where st:
      "w2 = wp @ [Fetched \<lparr>req_url = js ''https://vinted.de'', req_cookie = None,
                          req_agent = agent\<rparr> (Inr res)]"
      "set_cookie res = Some header" "cookieValue header = Inr tok"
      "this2 = this1\<lparr>sessionCookie := Some tok\<rparr>"
    by (cases rule: fetchSessionCookie_cases) auto
  from assms(7) obtain wp' agent' res' tok' w0 where second:
      "w3 = wp' @ [Fetched \<lparr>req_url = url,
                          req_cookie = Some (js ''_vinted_fr_session='' @ tok'),
                          req_agent = agent'\<rparr> (Inr res')]"
      "sessionCookie this3 = Some tok'"
      "(this3 = this2 \<and> w0 = w2 \<and> tok' \<noteq> [])
       \<or> (fetchSessionCookie P this2 w2 = (Inr (), this3, w0)
          \<and> (sessionCookie this2 = None \<or> sessionCookie this2 = Some []))"
    by (cases rule: obtainText_cases) auto
  from st(4) have held: "sessionCookie this2 = Some tok" by simp
  have kept: "this3 = this2 \<and> tok' = tok" if "tok \<noteq> []"
    using second(2,3) held that by auto
  have again: "\<exists>w0. fetchSessionCookie P this2 w2 = (Inr (), this3, w0)" if "tok = []"
    using second(2,3) held that by auto
  have sent: "\<exists>v' agent' res'.
                 w3 = v' @ [Fetched \<lparr>req_url = url,
                               req_cookie = Some (js ''_vinted_fr_session='' @ tok'),
                               req_agent = agent'\<rparr> (Inr res')]"
    using second(1) by blast
  show "\<exists>v agent res header tok tok'.
             w2 = v @ [Fetched \<lparr>req_url = js ''https://vinted.de'', req_cookie = None,
                               req_agent = agent\<rparr> (Inr res)]
           \<and> set_cookie res = Some header \<and> cookieValue header = Inr tok
           \<and> this2 = this1\<lparr>sessionCookie := Some tok\<rparr>
           \<and> sessionCookie this3 = Some tok'
           \<and> (\<exists>v' agent' res'.
                 w3 = v' @ [Fetched \<lparr>req_url = url,
                               req_cookie = Some (js ''_vinted_fr_session='' @ tok'),
                               req_agent = agent'\<rparr> (Inr res')])
           \<and> (tok \<noteq> [] \<longrightarrow> this3 = this2 \<and> tok' = tok)
           \<and> (tok = [] \<longrightarrow> (\<exists>w0. fetchSessionCookie P this2 w2 = (Inr (), this3, w0)))"
    apply (rule exI[of _ wp])
    apply (rule exI[of _ agent])
    apply (rule exI[of _ res])
    apply (rule exI[of _ header])
    apply (rule exI[of _ tok])
    apply (rule exI[of _ tok'])
    apply (intro conjI impI)
            apply (rule st(1))
           apply (rule st(2))
          apply (rule st(3))
         apply (rule st(4))
        apply (rule second(2))
       apply (rule sent)
      apply (simp add: kept)
     apply (simp add: kept)
    apply (erule again)
    done
qed

theorem request_retry_after_refresh_witness:
  "request
     (scripted [bodyResponse staleBody, cookieResponse (js ''_vinted_fr_session=t1; Path=/''),
                bodyResponse itemBody] [] demoBodies)
     heldToken [] demoUrl
     = Some (Inr (JObject [(js ''item'', JObject [(js ''id'', JString (js ''7''))])]),
             heldToken\<lparr>sessionCookie := Some (js ''t1'')\<rparr>,
             [apiGet (js ''t0'') (bodyResponse staleBody),
              rootGet (cookieResponse (js ''_vinted_fr_session=t1; Path=/'')),
              apiGet (js ''t1'') (bodyResponse itemBody)])"
proof -
  let ?P = "scripted [bodyResponse staleBody,
                cookieResponse (js ''_vinted_fr_session=t1; Path=/''),
                bodyResponse itemBody] [] demoBodies"
  let ?w1 = "[apiGet (js ''t0'') (bodyResponse staleBody)]"
  let ?w2 = "[apiGet (js ''t0'') (bodyResponse staleBody),
              rootGet (cookieResponse (js ''_vinted_fr_session=t1; Path=/''))]"
  let ?w3 = "[apiGet (js ''t0'') (bodyResponse staleBody),
              rootGet (cookieResponse (js ''_vinted_fr_session=t1; Path=/'')),
              apiGet (js ''t1'') (bodyResponse itemBody)]"
  let ?fresh = "heldToken\<lparr>sessionCookie := Some (js ''t1'')\<rparr>"
  have h1: "obtainText ?P heldToken [] demoUrl = (Inr ([], staleBody), heldToken, ?w1)"
    by (simp add: pipeline_defs)
  have h2: "\<not> str_includes staleBody (js ''Request rate limit exceeded'')"
    and h3: "\<not> str_includes staleBody (js ''<'')"
    by (simp_all add: staleBody_def js_def)
  have h4: "JSON_parse ?P staleBody
     = Some (JObject [(js ''message_code'', JString (js ''invalid_authentication_token''))])"
    by (simp add: pipeline_defs)
  have h5: "map_of [(js ''message_code'', JString (js ''invalid_authentication_token''))]
        (js ''message_code'') = Some (JString (js ''invalid_authentication_token''))"
    by simp
  have h6: "fetchSessionCookie ?P heldToken ?w1 = (Inr (), ?fresh, ?w2)"
    by (simp add: pipeline_defs)
  have h7: "obtainText ?P ?fresh ?w2 demoUrl = (Inr ([], itemBody), ?fresh, ?w3)"
    by (simp add: pipeline_defs)
  have h8: "\<not> str_includes itemBody (js ''Request rate limit exceeded'')"
    and h9: "\<not> str_includes itemBody (js ''<'')"
    by (simp_all add: itemBody_def js_def)
  have h10: "JSON_parse ?P itemBody
     = Some (JObject [(js ''item'', JObject [(js ''id'', JString (js ''7''))])])"
    by (simp add: pipeline_defs)
  have h11: "map_of [(js ''item'', JObject [(js ''id'', JString (js ''7''))])] (js ''message_code'')
     \<noteq> Some (JString (js ''invalid_authentication_token''))"
    and h12: "map_of [(js ''item'', JObject [(js ''id'', JString (js ''7''))])] (js ''message_code'')
     \<noteq> Some (JString (js ''not_found''))"
    by (simp_all add: js_def)
  from request_retry_after_refresh[OF h1 h2 h3 h4 h5 h6 h7 h8 h9 h10 h11 h12]
  show ?thesis by simp
qed

subsection \<open>C6: boostItem\<close>



subsection \<open>C7: session acquisition\<close>

text \<open>
  Claim C7, as amended. Once the GET to the site root has been answered,
  \<open>fetchSessionCookie\<close> fails with \<open>Error("Cannot fetch cookie")\<close> exactly when
  the response has no \<open>set-cookie\<close> header or the header does not contain
  \<open>_vinted_fr_session\<close>; and when it succeeds, the stored value, which replaces
  whatever was stored, is the text of the header between the first
  \<open>_vinted_fr_session=\<close> and what comes first after it: a \<open>;\<close> (code unit 59), a
  further \<open>_vinted_fr_session=\<close>, or the end of the header. So the value holds no
  \<open>;\<close>, no \<open>_vinted_fr_session=\<close> starts inside it, and it ends where one of the
  three is met; \<open>cookie_value_unique\<close> above shows that one value only does so.
\<close>

theorem fetchSessionCookie_outcome:
  assumes "takeProxy P this w = (Inr proxy, w1)"
    and "agentFor P proxy = Inr agent"
    and "fetch P w1 \<lparr>req_url = js ''https://vinted.de'', req_cookie = None, req_agent = agent\<rparr>
           = Inr res"
  shows "((\<exists>this' w'. fetchSessionCookie P this w
              = (Inl (Error (js ''Cannot fetch cookie'')), this', w'))
          \<longleftrightarrow> (case set_cookie res of None \<Rightarrow> True
               | Some header \<Rightarrow> \<not> str_includes header (js ''_vinted_fr_session'')))
       \<and> (\<forall>this' w'. fetchSessionCookie P this w = (Inr (), this', w') \<longrightarrow>
            (\<exists>header pre tok rest.
                set_cookie res = Some header
              \<and> header = pre @ js ''_vinted_fr_session='' @ tok @ rest
              \<and> (\<forall>k<length pre. \<not> prefix (js ''_vinted_fr_session='') (drop k header))
              \<and> 59 \<notin> set tok
              \<and> (\<forall>k<length tok. \<not> prefix (js ''_vinted_fr_session='') (drop k (tok @ rest)))
              \<and> (rest = [] \<or> hd rest = 59 \<or> prefix (js ''_vinted_fr_session='') rest)
              \<and> this' = this\<lparr>sessionCookie := Some tok\<rparr>))"
proof -
  let ?req = "\<lparr>req_url = js ''https://vinted.de'', req_cookie = None, req_agent = agent\<rparr>"
  have aw: "awaitFetch P w1 ?req = (Inr res, w1 @ [Fetched ?req (Inr res)])"
    using assms(3) by (simp add: awaitFetch_def)
  have unfold: "fetchSessionCookie P this w =
      (case set_cookie res of
         None \<Rightarrow> (Inl (Error (js ''Cannot fetch cookie'')), this, w1 @ [Fetched ?req (Inr res)])
       | Some header \<Rightarrow>
           if \<not> str_includes header (js ''_vinted_fr_session'')
           then (Inl (Error (js ''Cannot fetch cookie'')), this, w1 @ [Fetched ?req (Inr res)])
           else (case cookieValue header of
                   Inl e \<Rightarrow> (Inl e, this, w1 @ [Fetched ?req (Inr res)])
                 | Inr v \<Rightarrow> (Inr (), this\<lparr>sessionCookie := Some v\<rparr>, w1 @ [Fetched ?req (Inr res)])))"
    by (simp add: fetchSessionCookie_def assms(1,2) aw)
  have cv: "cookieValue header = Inl e \<Longrightarrow> e = TypeError" for header e
    by (auto simp: cookieValue_def split: list.splits)
  show ?thesis
  proof (intro conjI allI impI)
    show "(\<exists>this' w'. fetchSessionCookie P this w
              = (Inl (Error (js ''Cannot fetch cookie'')), this', w'))
          \<longleftrightarrow> (case set_cookie res of None \<Rightarrow> True
               | Some header \<Rightarrow> \<not> str_includes header (js ''_vinted_fr_session''))"
      unfolding unfold by (auto split: option.splits sum.splits dest: cv)
  next
    fix this' w'
    assume ok: "fetchSessionCookie P this w = (Inr (), this', w')"
    then obtain header tok where "set_cookie res = Some header"
      "cookieValue header = Inr tok" "this' = this\<lparr>sessionCookie := Some tok\<rparr>"
      unfolding unfold by (auto split: option.splits sum.splits if_splits)
    with cookieValue_Inr[of header tok] show "\<exists>header pre tok rest.
                set_cookie res = Some header
              \<and> header = pre @ js ''_vinted_fr_session='' @ tok @ rest
              \<and> (\<forall>k<length pre. \<not> prefix (js ''_vinted_fr_session='') (drop k header))
              \<and> 59 \<notin> set tok
              \<and> (\<forall>k<length tok. \<not> prefix (js ''_vinted_fr_session='') (drop k (tok @ rest)))
              \<and> (rest = [] \<or> hd rest = 59 \<or> prefix (js ''_vinted_fr_session='') rest)
              \<and> this' = this\<lparr>sessionCookie := Some tok\<rparr>"
      by blast
  qed
qed

theorem fetchSessionCookie_outcome_witness:
  "takeProxy (scripted [cookieResponse (js ''a=1; _vinted_fr_session=abc123; Path=/'')] [] [])
       (VintedScraper (Some [js ''http://10.0.0.1:8080''])) []
     = (Inr (js ''http://10.0.0.1:8080''), [ProxyTaken (Inr (js ''http://10.0.0.1:8080''))])
   \<and> fetchSessionCookie
       (scripted [cookieResponse (js ''a=1; _vinted_fr_session=abc123; Path=/'')] [] [])
       (VintedScraper (Some [js ''http://10.0.0.1:8080''])) []
     = (Inr (),
        \<lparr>proxyHandler = Some [js ''http://10.0.0.1:8080''], sessionCookie = Some (js ''abc123'')\<rparr>,
        [ProxyTaken (Inr (js ''http://10.0.0.1:8080'')),
         Fetched \<lparr>req_url = js ''https://vinted.de'', req_cookie = None,
                  req_agent = Some (ProxyAgent (js ''http://10.0.0.1:8080''))\<rparr>
           (Inr (cookieResponse (js ''a=1; _vinted_fr_session=abc123; Path=/'')))])
   \<and> \<not> (\<exists>this' w'. fetchSessionCookie
       (scripted [cookieResponse (js ''a=1; _vinted_fr_session=abc123; Path=/'')] [] [])
       (VintedScraper (Some [js ''http://10.0.0.1:8080''])) []
     = (Inl (Error (js ''Cannot fetch cookie'')), this', w'))"
proof -
  let ?P = "scripted [cookieResponse (js ''a=1; _vinted_fr_session=abc123; Path=/'')] [] []"
  let ?scr = "VintedScraper (Some [js ''http://10.0.0.1:8080''])"
  let ?proxy = "js ''http://10.0.0.1:8080''"
  let ?res = "cookieResponse (js ''a=1; _vinted_fr_session=abc123; Path=/'')"
  have h1: "takeProxy ?P ?scr [] = (Inr ?proxy, [ProxyTaken (Inr ?proxy)])"
    by (simp add: takeProxy_def scripted_def VintedScraper_def)
  have h2: "agentFor ?P ?proxy = Inr (Some (ProxyAgent ?proxy))"
    by (simp add: agentFor_def scripted_def js_def)
  have h3: "fetch ?P [ProxyTaken (Inr ?proxy)]
      \<lparr>req_url = js ''https://vinted.de'', req_cookie = None,
       req_agent = Some (ProxyAgent ?proxy)\<rparr> = Inr ?res"
    by (simp add: scripted_def)
  have inc: "str_includes (js ''a=1; _vinted_fr_session=abc123; Path=/'') (js ''_vinted_fr_session'')"
    by (simp add: js_def)
  have run: "fetchSessionCookie ?P ?scr []
     = (Inr (),
        \<lparr>proxyHandler = Some [?proxy], sessionCookie = Some (js ''abc123'')\<rparr>,
        [ProxyTaken (Inr ?proxy),
         Fetched \<lparr>req_url = js ''https://vinted.de'', req_cookie = None,
                  req_agent = Some (ProxyAgent ?proxy)\<rparr> (Inr ?res)])"
  proof -
    have sc: "set_cookie ?res = Some (js ''a=1; _vinted_fr_session=abc123; Path=/'')"
      by (simp add: cookieResponse_def)
    have cv: "cookieValue (js ''a=1; _vinted_fr_session=abc123; Path=/'') = Inr (js ''abc123'')"
      by (simp add: cookieValue_def str_split_def js_def)
    show ?thesis
      by (simp add: fetchSessionCookie_def h1 h2 awaitFetch_def h3 sc inc cv)
         (simp add: VintedScraper_def)
  qed
  from fetchSessionCookie_outcome[OF h1 h2 h3] inc
  have "\<not> (\<exists>this' w'. fetchSessionCookie ?P ?scr []
     = (Inl (Error (js ''Cannot fetch cookie'')), this', w'))"
    by (simp add: cookieResponse_def)
  with h1 run show ?thesis by blast
qed

text \<open>
  The claim as stated fails where the header names the cookie twice before the first
  \<open>;\<close> (the transport joins the \<open>set-cookie\<close> headers of a response with a comma):
  the stored value ends at the second name, not at the \<open>;\<close>.
\<close>

theorem fetchSessionCookie_two_cookies_counterexample:
  "fetchSessionCookie
     (scripted [cookieResponse (js ''_vinted_fr_session=a, _vinted_fr_session=b; Path=/'')] [] [])
     heldToken []
     = (Inr (), heldToken\<lparr>sessionCookie := Some (js ''a, '')\<rparr>,
        [rootGet (cookieResponse (js ''_vinted_fr_session=a, _vinted_fr_session=b; Path=/''))])
   \<and> takeWhile (\<lambda>c. c \<noteq> 59)
        (drop (length (js ''_vinted_fr_session=''))
           (js ''_vinted_fr_session=a, _vinted_fr_session=b; Path=/''))
     = js ''a, _vinted_fr_session=b''
   \<and> js ''a, '' \<noteq> js ''a, _vinted_fr_session=b''"
  by (simp add: pipeline_defs)

subsection \<open>C8: the normalizer is a function of its input\<close>

text \<open>
  Claim C8. The method runs with the scraper (session cookie, proxy handler) and the
  world in reach. Whatever they are, a call with the same URL gives the same result,
  string or error, and leaves the scraper and the world as it found them. So two calls
  with one URL, at any two moments, give one result; and what \<open>search\<close> does with a
  URL is fixed by what the method returns for it in any other state.
\<close>

theorem getQueryParameters_stateless:
  "fst (getQueryParameters_method this w url) = fst (getQueryParameters_method this' w' url)
   \<and> snd (getQueryParameters_method this w url) = (this, w)
   \<and> search P this w url =
       (case fst (getQueryParameters_method this' w' url) of
          Inl e \<Rightarrow> Some (Inl e, this, w)
        | Inr queryString \<Rightarrow>
            request P this w (js ''https://www.vinted.be/api/v2/catalog/items?'' @ queryString))"
  by (simp add: getQueryParameters_method_value search_def split: sum.splits)

theorem getQueryParameters_stateless_witness:
  "getQueryParameters_method (VintedScraper None) []
       (js ''https://www.vinted.be/catalog?catalog[]=1&catalog[]=2&time=999'')
     = (Inr (js ''catalog_ids=1,2''), VintedScraper None, [])
   \<and> getQueryParameters_method
       \<lparr>proxyHandler = Some [js ''http://10.0.0.1:8080''], sessionCookie = Some (js ''t0'')\<rparr>
       [ProxyTaken (Inr (js ''http://10.0.0.1:8080''))]
       (js ''https://www.vinted.be/catalog?catalog[]=1&catalog[]=2&time=999'')
     = (Inr (js ''catalog_ids=1,2''),
        \<lparr>proxyHandler = Some [js ''http://10.0.0.1:8080''], sessionCookie = Some (js ''t0'')\<rparr>,
        [ProxyTaken (Inr (js ''http://10.0.0.1:8080''))])"
proof -
  let ?url = "js ''https://www.vinted.be/catalog?catalog[]=1&catalog[]=2&time=999''"
  let ?scr = "\<lparr>proxyHandler = Some [js ''http://10.0.0.1:8080''],
                sessionCookie = Some (js ''t0'')\<rparr>"
  let ?w = "[ProxyTaken (Inr (js ''http://10.0.0.1:8080''))]"
  have run: "getQueryParameters_method (VintedScraper None) [] ?url
      = (Inr (js ''catalog_ids=1,2''), VintedScraper None, [])"
    by (simp add: getQueryParameters_method_def organizeParam_def formatParam_def
          normalize_defs)
  from getQueryParameters_stateless[of ?scr ?w ?url "VintedScraper None" "[]"]
  have "fst (getQueryParameters_method ?scr ?w ?url)
          = fst (getQueryParameters_method (VintedScraper None) [] ?url)"
    and "snd (getQueryParameters_method ?scr ?w ?url) = (?scr, ?w)"
    by blast+
  with run have "getQueryParameters_method ?scr ?w ?url
      = (Inr (js ''catalog_ids=1,2''), ?scr, ?w)"
    by (simp add: prod_eq_iff)
  with run show ?thesis by blast
qed

subsection \<open>C9: a classification error leaves the token as it was sent\<close>

text \<open>
  Claim C9. When a call of \<open>request\<close> ends with one of the four errors of the
  classification (rate limit, bad gateway, the \<open>SyntaxError\<close> of \<open>JSON.parse\<close>,
  \<open>not_found\<close>), the last thing that happened is the GET whose response was
  classified, and the token stored at the end is the token that this GET carried in its
  cookie header: nothing after the GET of that attempt touched the field.
\<close>

theorem request_classification_error_keeps_token:
  assumes "request P this w url = Some (Inl e, this', w')" and "classificationError e"
  shows "\<exists>w0 req res tok. w' = w0 @ [Fetched req (Inr res)] \<and> req_url req = url
           \<and> sessionCookie this' = Some tok
           \<and> req_cookie req = Some (js ''_vinted_fr_session='' @ tok)"
proof -
  have "\<forall>e this' w'. y = (Inl e, this', w') \<longrightarrow> classificationError e \<longrightarrow>
          (\<exists>w0 req res tok. w' = w0 @ [Fetched req (Inr res)] \<and> req_url req = url
           \<and> sessionCookie this' = Some tok
           \<and> req_cookie req = Some (js ''_vinted_fr_session='' @ tok))"
    if "request P this w url = Some y" for y
    using that
  proof (induction rule: request_induct)
    case (final this w y)
    then show ?case using attempt_classificationError by blast
  next
    case (retry this w this2 w2 y)
    then show ?case by blast
  qed
  with assms show ?thesis by blast
qed

theorem request_classification_error_keeps_token_witness:
  "request (scripted [bodyResponse rateLimitBody] [] demoBodies) heldToken [] demoUrl
     = Some (Inl (Error (js ''Request rate limit exceeded'')), heldToken,
             [apiGet (js ''t0'') (bodyResponse rateLimitBody)])
   \<and> classificationError (Error (js ''Request rate limit exceeded''))
   \<and> (\<exists>w0 req res tok.
         [apiGet (js ''t0'') (bodyResponse rateLimitBody)] = w0 @ [Fetched req (Inr res)]
       \<and> req_url req = demoUrl \<and> sessionCookie heldToken = Some tok
       \<and> req_cookie req = Some (js ''_vinted_fr_session='' @ tok))"
proof -
  have run: "request (scripted [bodyResponse rateLimitBody] [] demoBodies) heldToken [] demoUrl
     = Some (Inl (Error (js ''Request rate limit exceeded'')), heldToken,
             [apiGet (js ''t0'') (bodyResponse rateLimitBody)])"
    by (subst request.simps) (simp add: pipeline_defs)
  have cls: "classificationError (Error (js ''Request rate limit exceeded''))"
    by simp
  from request_classification_error_keeps_token[OF run cls] run cls
  show ?thesis by blast
qed

subsection \<open>C10: one proxy for each attempt\<close>




end
